theory Spec2Isabelle
  imports Complex_Main
begin

section \<open>Turtle Tanks: the match engine of \<open>src/lib/TurtleTanks/Game.ts\<close>\<close>

text \<open>
  The class \<open>Game\<close> is embedded as a record of its fields and one function per method,
  each taking the match and returning its result with the updated match. JavaScript
  numbers that hold health, points and counts are integers; the straight-line distance
  of the tile map is a real number. Rendering (the canvas, avatars), the chat channel
  and the database rows are effects no function below reads back, and are left out.
\<close>

subsection \<open>Types of \<open>Types.ts\<close>, \<open>MapTile.ts\<close>, \<open>Weapons.ts\<close>, \<open>Perks.ts\<close>, \<open>Player.ts\<close>\<close>

datatype Coordinate = Coordinate (coord_x: int) (coord_y: int)

record Team =
  name :: string
  body :: "string option"

record Weapon =
  weaponName :: string
  damage :: int
  radius :: int
  weaponRange :: int

text \<open>
  Modelled from the spec: \<open>Perks.ts\<close> is not among the sources. \<open>Game.ts\<close> compares a
  player's perk with \<open>PerkType.Kamikaze\<close> only; every other perk is \<open>OtherPerk\<close>.
\<close>

datatype PerkType = Kamikaze | OtherPerk nat

datatype ShotResult = Hit | Miss

record MapTile =
  tileCoords :: Coordinate
  sparse :: bool
  occupied :: "string option"

text \<open>
  Modelled from the spec: \<open>Player.ts\<close> is not among the sources. The fields are the
  arguments \<open>join\<close> passes to the constructor (the avatar apart), and \<open>shotMemory\<close> is the
  spec's running record of the coordinates the player has fired at.
\<close>

record Player =
  userId :: string
  points :: int
  hp :: int
  pointsPerMove :: int
  pointsPerShot :: int
  pointsPerTick :: int
  pointsPerKill :: int
  coords :: Coordinate
  team :: "Team option"
  weapon :: Weapon
  perk :: "PerkType option"
  shotMemory :: "Coordinate list"

record GameRules =
  teams :: "Team list option"
  millisecondsPerTick :: int
  defaultStartingHp :: int
  defaultStartingPoints :: int
  defaultPointsPerMove :: int
  defaultPointsPerShot :: int
  defaultPointsPerTick :: int
  defaultPointsPerKill :: int

text \<open>\<open>Partial<GameRules>\<close>: every field may be undefined.\<close>

record PartialGameRules =
  teams_opt :: "Team list option"
  millisecondsPerTick_opt :: "int option"
  defaultStartingHp_opt :: "int option"
  defaultStartingPoints_opt :: "int option"
  defaultPointsPerMove_opt :: "int option"
  defaultPointsPerShot_opt :: "int option"
  defaultPointsPerTick_opt :: "int option"
  defaultPointsPerKill_opt :: "int option"

record PlayerShotEffect =
  player :: Player
  oldHP :: int
  newHP :: int
  damageTaken :: int

record ShotEffect =
  affectedTiles :: "MapTile list"
  affectedPlayers :: "PlayerShotEffect list"
  killedPlayers :: "Player list"
  pointsRequired :: int
  totalDamage :: int

record MoveCost =
  movePointsRequired :: int
  tilesTraversed :: int

subsection \<open>Errors and log entries\<close>

text \<open>
  Every \<open>{ err: ... }\<close> a method returns is a constructor carrying the values its
  message interpolates; \<open>MapError\<close> is an error of the tile map's \<open>canMoveTo\<close>, and
  \<open>Thrown\<close> is an exception (a \<open>throw\<close>, or a property access on \<open>undefined\<close>).
\<close>

datatype error =
    GameHasEnded
  | AlreadyInGame
  | PlayerIsDead
  | GameIsFull
  | UserNotInGame
  | PlayerNotInGame
  | TileDoesNotExist Coordinate
  | TileOutOfBounds Coordinate
  | OutOfRange Coordinate int real
  | NotEnoughPointsToAttack Coordinate int int
  | NotEnoughPointsToMove int int int
  | MapError string
  | Thrown string

text \<open>
  The log keeps, for every \<open>this.log.push\<close>, the values its message is built from
  (the user names and the time stamps come from the chat platform and the clock).
\<close>

datatype LogMessage =
    LogJoined string "string option"
  | LogMoved string Coordinate Coordinate int
  | LogFired string nat int int
  | LogKamikazed string nat int
  | LogAwarded string int
  | LogDamaged string string int bool "int option"
  | LogTick string int

subsection \<open>The parts of the repository outside \<open>Game.ts\<close>\<close>

text \<open>
  \<open>Constants.ts\<close>, \<open>Weapons.ts\<close>, \<open>Perks.ts\<close> and \<open>Map.ts\<close> are not among the sources.
  Their constants and the queries of the tile map are parameters of the model,
  gathered in one record: every theorem holds for all of their values. A tile map
  query reads the current tiles; \<open>getTilesInRadius\<close> and \<open>getUnoccupiedSquare\<close> return
  tiles as the map holds them.
\<close>

record Env =
  DEFAULT_STARTING_HP :: int
  DEFAULT_STARTING_POINTS :: int
  POINTS_PER_MOVE :: int
  POINTS_PER_SHOT :: int
  POINTS_PER_KILL :: int
  POINTS_PER_TICK :: int
  MILLISECONDS_PER_TICK :: int
  SmallMissile :: Weapon
  loadPerk :: "string \<Rightarrow> PerkType option"
  canMoveTo :: "MapTile list \<Rightarrow> Coordinate \<Rightarrow> Player \<Rightarrow> error + MoveCost"
  distanceBetweenStraightLine :: "Coordinate \<Rightarrow> Coordinate \<Rightarrow> real"
  getTilesInRadius :: "MapTile list \<Rightarrow> Coordinate \<Rightarrow> int \<Rightarrow> bool \<Rightarrow> MapTile list"
  getUnoccupiedSquare :: "MapTile list \<Rightarrow> MapTile option"

subsection \<open>The match\<close>

text \<open>
  \<open>players\<close> and \<open>deadPlayers\<close> are \<open>Map<string, Player>\<close>: insertion-ordered, and every
  \<open>set\<close> of the source stores a player under its own \<open>userId\<close>, so a roster is the list
  of its players in insertion order, looked up by \<open>userId\<close>. \<open>timer\<close> is the delay of the
  pending \<open>setTimeout\<close>, if one is pending.
\<close>

record Game =
  gameMap :: "MapTile list"
  players :: "Player list"
  deadPlayers :: "Player list"
  rules :: GameRules
  logMessages :: "LogMessage list"
  timer :: "int option"
  ended :: bool
  tickLoopLaunched :: bool

definition roster_get :: "string \<Rightarrow> Player list \<Rightarrow> Player option" where
  "roster_get uid ps = find (\<lambda>p. userId p = uid) ps"

definition roster_has :: "string \<Rightarrow> Player list \<Rightarrow> bool" where
  "roster_has uid ps = (roster_get uid ps \<noteq> None)"

definition roster_set :: "Player \<Rightarrow> Player list \<Rightarrow> Player list" where
  "roster_set p ps =
     (if roster_has (userId p) ps
      then map (\<lambda>q. if userId q = userId p then p else q) ps
      else ps @ [p])"

definition roster_delete :: "string \<Rightarrow> Player list \<Rightarrow> Player list" where
  "roster_delete uid ps = filter (\<lambda>q. userId q \<noteq> uid) ps"

subsection \<open>The constructor\<close>

text \<open>\<open>v || d\<close> on an optional number: \<open>undefined\<close> and \<open>0\<close> are falsy.\<close>

definition orDefault :: "int option \<Rightarrow> int \<Rightarrow> int" where
  "orDefault v d = (case v of None \<Rightarrow> d | Some n \<Rightarrow> if n = 0 then d else n)"

text \<open>
  \<open>new Game(channel, db, map, guild, rules)\<close>. The tiles are those of the
  \<open>MapManager\<close> the constructor builds from \<open>map\<close>.
\<close>

definition newGame :: "Env \<Rightarrow> MapTile list \<Rightarrow> PartialGameRules \<Rightarrow> error + Game" where
  "newGame env tiles r =
     (if (case teams_opt r of None \<Rightarrow> False | Some ts \<Rightarrow> length ts < 2)
      then Inl (Thrown ''Must provide at least two teams!'')
      else Inr \<lparr>
        gameMap = tiles,
        players = [],
        deadPlayers = [],
        rules = \<lparr>
          teams = teams_opt r,
          millisecondsPerTick = orDefault (millisecondsPerTick_opt r) (MILLISECONDS_PER_TICK env),
          defaultStartingHp = orDefault (defaultStartingHp_opt r) (DEFAULT_STARTING_HP env),
          defaultStartingPoints = orDefault (defaultStartingPoints_opt r) (DEFAULT_STARTING_POINTS env),
          defaultPointsPerMove = orDefault (defaultPointsPerMove_opt r) (POINTS_PER_MOVE env),
          defaultPointsPerShot = orDefault (defaultPointsPerShot_opt r) (POINTS_PER_SHOT env),
          defaultPointsPerTick = orDefault (defaultPointsPerTick_opt r) (POINTS_PER_TICK env),
          defaultPointsPerKill = orDefault (defaultPointsPerKill_opt r) (POINTS_PER_KILL env)
        \<rparr>,
        logMessages = [],
        timer = None,
        ended = False,
        tickLoopLaunched = False
      \<rparr>)"

subsection \<open>The tile map\<close>

text \<open>
  Modelled from the spec: \<open>Map.ts\<close> is not among the sources. \<open>tryGetTile(coord)\<close> is
  the tile at that coordinate, if the map has one, whatever its occupancy (so
  \<open>getPlayerAtLocation\<close> reads \<open>occupied\<close> from its result); \<open>getTile\<close> is the same
  lookup where the caller takes the tile to exist.
\<close>

definition tryGetTile :: "MapTile list \<Rightarrow> Coordinate \<Rightarrow> MapTile option" where
  "tryGetTile tiles c = find (\<lambda>t. tileCoords t = c) tiles"

text \<open>The assignment \<open>tile.occupied = v\<close> to the tile that \<open>tryGetTile\<close> finds at \<open>c\<close>.\<close>

fun setOccupied :: "Coordinate \<Rightarrow> string option \<Rightarrow> MapTile list \<Rightarrow> MapTile list" where
  "setOccupied c v [] = []"
| "setOccupied c v (t # ts) =
     (if tileCoords t = c then t\<lparr>occupied := v\<rparr> # ts else t # setOccupied c v ts)"

subsection \<open>Methods of \<open>Player\<close>\<close>

text \<open>
  Modelled from the spec: \<open>Player.dead\<close> is not among the sources; health reaching
  zero marks the combatant eliminated.
\<close>

definition dead :: "Player \<Rightarrow> bool" where
  "dead p = (hp p = 0)"

text \<open>
  Modelled from the spec: \<open>Player.receiveDamage\<close> is not among the sources; new
  health is \<open>max(current health - damage, 0)\<close>, and the method returns it.
\<close>

definition receiveDamage :: "int \<Rightarrow> Player \<Rightarrow> Player" where
  "receiveDamage d p = p\<lparr>hp := max (hp p - d) 0\<rparr>"

text \<open>
  Modelled from the spec: \<open>Player.attack\<close> is not among the sources. The shot
  consumes the point cost and is recorded in the shot memory; kamikaze mode always
  hits, otherwise \<open>roll\<close> is the outcome of the probabilistic check; a hit credits the
  kill reward once for each player the shot eliminates.
\<close>

definition attack :: "bool \<Rightarrow> Coordinate \<Rightarrow> ShotEffect \<Rightarrow> bool \<Rightarrow> Player \<Rightarrow> ShotResult \<times> Player" where
  "attack roll c effect isKamikaze p =
     (let p1 = p\<lparr>points := points p - pointsPerShot p, shotMemory := shotMemory p @ [c]\<rparr>
      in if isKamikaze \<or> roll
         then (Hit, p1\<lparr>points := points p1 + pointsPerKill p1 * int (length (killedPlayers effect))\<rparr>)
         else (Miss, p1))"

text \<open>
  Modelled from the spec: \<open>Player.handleGameTick\<close> is not among the sources; it
  grants the per-tick point income and appends a log entry.
\<close>

definition playerTick :: "Player \<Rightarrow> Player \<times> LogMessage" where
  "playerTick p = (p\<lparr>points := points p + pointsPerTick p\<rparr>, LogTick (userId p) (pointsPerTick p))"

subsection \<open>\<open>killPlayer\<close>, \<open>cleanup\<close>, \<open>handleGameTick\<close>\<close>

definition killPlayer :: "Player \<Rightarrow> Game \<Rightarrow> Game" where
  "killPlayer p g =
     g\<lparr>deadPlayers := roster_set p (deadPlayers g),
       players := roster_delete (userId p) (players g)\<rparr>"

definition cleanup :: "Game \<Rightarrow> Game" where
  "cleanup g = g\<lparr>timer := None\<rparr>"

definition handleGameTick :: "Env \<Rightarrow> Game \<Rightarrow> Game" where
  "handleGameTick env g =
     g\<lparr>players := map (\<lambda>p. fst (playerTick p)) (players g),
       logMessages := logMessages g @ map (\<lambda>p. snd (playerTick p)) (players g),
       timer := Some (MILLISECONDS_PER_TICK env)\<rparr>"

subsection \<open>\<open>chooseTeam\<close>\<close>

text \<open>
  \<open>teamUserCount\<close> is a \<open>Map<Team, number>\<close>: \<open>mapSet\<close> overwrites the value of a key
  the map has and appends a new key otherwise, so the keys stay in the order of their
  first insertion. The source compares teams by reference and the model by value. A
  count of \<open>None\<close> is \<open>NaN\<close>, which is what \<open>undefined + 1\<close> gives for a team the map
  does not have; no comparison with \<open>NaN\<close> is true.
\<close>

fun mapSet :: "'k \<Rightarrow> 'v \<Rightarrow> ('k \<times> 'v) list \<Rightarrow> ('k \<times> 'v) list" where
  "mapSet k v [] = [(k, v)]"
| "mapSet k v ((k', v') # m) = (if k' = k then (k, v) # m else (k', v') # mapSet k v m)"

definition MAX_SAFE_INTEGER :: int where
  "MAX_SAFE_INTEGER = 9007199254740991"

definition initCounts :: "Team list \<Rightarrow> (Team \<times> int option) list" where
  "initCounts ts = foldl (\<lambda>m t. mapSet t (Some 0) m) [] ts"

definition countPlayer :: "(Team \<times> int option) list \<Rightarrow> Player \<Rightarrow> (Team \<times> int option) list" where
  "countPlayer m p =
     (case team p of
        None \<Rightarrow> m
      | Some t \<Rightarrow>
          mapSet t (case map_of m t of Some (Some n) \<Rightarrow> Some (n + 1) | _ \<Rightarrow> None) m)"

definition pickMinimum :: "Team option \<times> int \<Rightarrow> Team \<times> int option \<Rightarrow> Team option \<times> int" where
  "pickMinimum acc entry =
     (case snd entry of
        None \<Rightarrow> acc
      | Some count \<Rightarrow> if count \<le> snd acc then (Some (fst entry), count) else acc)"

definition chooseTeam :: "Game \<Rightarrow> error + Team option" where
  "chooseTeam g =
     (case teams (rules g) of
        None \<Rightarrow> Inl (Thrown ''Cannot chose team, no teams given!'')
      | Some ts \<Rightarrow>
          (let teamUserCount = foldl countPlayer (initCounts ts) (players g)
           in Inr (fst (foldl pickMinimum (None, MAX_SAFE_INTEGER) teamUserCount))))"

text \<open>The number of living members of a team: the players of the living roster on that team.\<close>

definition livingMembers :: "Player list \<Rightarrow> Team \<Rightarrow> int" where
  "livingMembers ps t = int (length (filter (\<lambda>p. team p = Some t) ps))"

subsection \<open>\<open>join\<close>\<close>

text \<open>The team \<open>join\<close> restores from a stored name: the last configured team of that name.\<close>

definition storedTeamOf :: "Team list \<Rightarrow> string option \<Rightarrow> Team option" where
  "storedTeamOf ts storedTeam =
     (case storedTeam of
        None \<Rightarrow> None
      | Some s \<Rightarrow>
          if s = [] then None
          else foldl (\<lambda>t existingTeam. if name existingTeam = s then Some existingTeam else t) None ts)"

definition joinTeam :: "Game \<Rightarrow> string option \<Rightarrow> error + Team option" where
  "joinTeam g storedTeam =
     (case teams (rules g) of
        None \<Rightarrow> Inr None
      | Some ts \<Rightarrow>
          (case storedTeamOf ts storedTeam of
             Some t \<Rightarrow> Inr (Some t)
           | None \<Rightarrow> chooseTeam g))"

definition joinSquare :: "Env \<Rightarrow> Game \<Rightarrow> Coordinate option \<Rightarrow> MapTile option" where
  "joinSquare env g c =
     (let square = (case c of None \<Rightarrow> None | Some xy \<Rightarrow> tryGetTile (gameMap g) xy)
      in case square of
           None \<Rightarrow> getUnoccupiedSquare env (gameMap g)
         | Some sq \<Rightarrow> Some sq)"

definition join ::
  "Env \<Rightarrow> string \<Rightarrow> int option \<Rightarrow> int option \<Rightarrow> Coordinate option \<Rightarrow> string option \<Rightarrow> Game
   \<Rightarrow> (error + Player) \<times> Game" where
  "join env uid hp0 points0 c storedTeam g =
     (if ended g then (Inl GameHasEnded, g)
      else if roster_has uid (players g) then (Inl AlreadyInGame, g)
      else if roster_has uid (deadPlayers g) then (Inl PlayerIsDead, g)
      else
        (case joinSquare env g c of
           None \<Rightarrow> (Inl GameIsFull, g)
         | Some square \<Rightarrow>
             (case joinTeam g storedTeam of
                Inl e \<Rightarrow> (Inl e, g)
              | Inr tm \<Rightarrow>
                  (let p = \<lparr>
                         userId = uid,
                         points = (case points0 of None \<Rightarrow> defaultStartingPoints (rules g) | Some n \<Rightarrow> n),
                         hp = (case hp0 of None \<Rightarrow> defaultStartingHp (rules g) | Some n \<Rightarrow> n),
                         pointsPerMove = defaultPointsPerMove (rules g),
                         pointsPerShot = defaultPointsPerShot (rules g),
                         pointsPerTick = defaultPointsPerTick (rules g),
                         pointsPerKill = defaultPointsPerKill (rules g),
                         coords = tileCoords square,
                         team = tm,
                         weapon = SmallMissile env,
                         perk = loadPerk env uid,
                         shotMemory = []
                       \<rparr>;
                       g1 = g\<lparr>players := roster_set p (players g),
                              gameMap := setOccupied (tileCoords square) (Some uid) (gameMap g),
                              logMessages := logMessages g @ [LogJoined uid (map_option name tm)]\<rparr>;
                       g2 = (if length (players g1) + length (deadPlayers g1) = 2 \<and> \<not> tickLoopLaunched g1
                             then g1\<lparr>tickLoopLaunched := True, timer := Some (MILLISECONDS_PER_TICK env)\<rparr>
                             else g1)
                   in (Inr p, g2)))))"

text \<open>
  \<open>loadFromDB\<close>: the rows of the match are joined one after the other
  (user, x, y, health, points, team); a row that fails to join is skipped, and a
  row with no health left is moved to the eliminated roster.
\<close>

datatype StoredPlayer = StoredPlayer string int int int int "string option"

fun loadRows :: "Env \<Rightarrow> StoredPlayer list \<Rightarrow> Game \<Rightarrow> Game" where
  "loadRows env [] g = g"
| "loadRows env (StoredPlayer uid cx cy h pts tm # rows) g =
     (case join env uid (Some h) (Some pts) (Some (Coordinate cx cy)) tm g of
        (Inl e, g1) \<Rightarrow> loadRows env rows g1
      | (Inr p, g1) \<Rightarrow> loadRows env rows (if h = 0 then killPlayer p g1 else g1))"

definition loadFromDB :: "Env \<Rightarrow> StoredPlayer list \<Rightarrow> Game \<Rightarrow> bool \<times> Game" where
  "loadFromDB env rows g = (if rows = [] then (False, g) else (True, loadRows env rows g))"

subsection \<open>\<open>canMove\<close>, \<open>moveToCoord\<close>\<close>

definition canMove :: "Env \<Rightarrow> string \<Rightarrow> Coordinate \<Rightarrow> Game \<Rightarrow> error + MoveCost" where
  "canMove env uid c g =
     (if ended g then Inl GameHasEnded
      else case roster_get uid (players g) of
             None \<Rightarrow> Inl UserNotInGame
           | Some p \<Rightarrow> canMoveTo env (gameMap g) c p)"

text \<open>
  \<open>moveToCoord\<close> returns \<open>[false, err]\<close> (\<open>Inl\<close>) or \<open>[true, '']\<close> (\<open>Inr ()\<close>). Writing
  \<open>occupied\<close> on a tile that \<open>getTile\<close> does not find throws, after the points were
  deducted. The check \<open>player.points < 0\<close> that follows the deduction only writes to the
  console.
\<close>

definition moveToCoord :: "Env \<Rightarrow> string \<Rightarrow> Coordinate \<Rightarrow> Game \<Rightarrow> (error + unit) \<times> Game" where
  "moveToCoord env uid c g =
     (case canMove env uid c g of
        Inl e \<Rightarrow> (Inl e, g)
      | Inr result \<Rightarrow>
          (case roster_get uid (players g) of
             None \<Rightarrow> (Inl (Thrown ''player is undefined''), g)
           | Some p \<Rightarrow>
               if points p \<ge> movePointsRequired result
               then
                 (let p1 = p\<lparr>points := points p - movePointsRequired result\<rparr>;
                      g1 = g\<lparr>players := roster_set p1 (players g)\<rparr>;
                      oldPosition = coords p1
                  in case tryGetTile (gameMap g1) oldPosition of
                       None \<Rightarrow> (Inl (Thrown ''tile is undefined''), g1)
                     | Some t1 \<Rightarrow>
                         (let g2 = g1\<lparr>gameMap := setOccupied oldPosition None (gameMap g1)\<rparr>
                          in case tryGetTile (gameMap g2) c of
                               None \<Rightarrow> (Inl (Thrown ''tile is undefined''), g2)
                             | Some t2 \<Rightarrow>
                                 (Inr (),
                                  g2\<lparr>gameMap := setOccupied c (Some uid) (gameMap g2),
                                     players := roster_set (p1\<lparr>coords := c\<rparr>) (players g2),
                                     logMessages := logMessages g2 @
                                       [LogMoved uid oldPosition c (movePointsRequired result)]\<rparr>)))
               else (Inl (NotEnoughPointsToMove (tilesTraversed result)
                            (movePointsRequired result) (points p)), g)))"

text \<open>The text of the insufficient-points error, numbers in decimal.\<close>

fun showNat :: "nat \<Rightarrow> string" where
  "showNat n = (if n < 10 then [char_of (48 + n)] else showNat (n div 10) @ [char_of (48 + n mod 10)])"

definition showInt :: "int \<Rightarrow> string" where
  "showInt i = (if i < 0 then CHR ''-'' # showNat (nat (- i)) else showNat (nat i))"

fun errorMessage :: "error \<Rightarrow> string option" where
  "errorMessage (NotEnoughPointsToMove tiles required available) =
     Some (''You don't have enough points required to move '' @ showInt tiles @ '' tiles. '' @
           ''You need '' @ showInt required @ '' points, but have '' @ showInt available @ '' points.'')"
| "errorMessage GameHasEnded = Some ''Game has ended''"
| "errorMessage UserNotInGame = Some ''User is not in the game''"
| "errorMessage PlayerNotInGame = Some ''Player is not in the game''"
| "errorMessage AlreadyInGame = Some ''You are already in the game!''"
| "errorMessage PlayerIsDead = Some ''Cannot perform action, you are dead.''"
| "errorMessage GameIsFull = Some ''Game is full, sorry.''"
| "errorMessage (MapError s) = Some s"
| "errorMessage (Thrown s) = Some s"
| "errorMessage e = None"

subsection \<open>\<open>canAttack\<close>\<close>

definition isKamikazeShot :: "Player \<Rightarrow> Coordinate \<Rightarrow> bool" where
  "isKamikazeShot p c =
     (coord_x (coords p) = coord_x c \<and> coord_y (coords p) = coord_y c \<and> perk p = Some Kamikaze)"

definition blastRadius :: "Player \<Rightarrow> Coordinate \<Rightarrow> int" where
  "blastRadius p c = (if isKamikazeShot p c then 2 else radius (weapon p))"

text \<open>The guard before \<open>continue\<close>: the occupant is another player of the attacker's team.\<close>

definition isTeammate :: "Player \<Rightarrow> Player \<Rightarrow> bool" where
  "isTeammate tilePlayer p =
     (userId tilePlayer \<noteq> userId p \<and>
      (case team tilePlayer of
         None \<Rightarrow> False
       | Some t1 \<Rightarrow> (case team p of None \<Rightarrow> False | Some t2 \<Rightarrow> name t1 = name t2)))"

definition shotDamage :: "Env \<Rightarrow> bool \<Rightarrow> Player \<Rightarrow> Player \<Rightarrow> int" where
  "shotDamage env isKamikaze p tilePlayer =
     (if isKamikaze
      then (if userId tilePlayer = userId p then hp p else DEFAULT_STARTING_HP env div 2)
      else damage (weapon p))"

text \<open>
  One round of the loop over \<open>tilesInRadius\<close>; the accumulator holds \<open>affectedTiles\<close>,
  \<open>affectedPlayers\<close>, \<open>killedPlayers\<close> and \<open>totalDamage\<close>. \<open>continue\<close> goes to the next
  tile without reaching \<open>affectedTiles.push(tile)\<close>.
\<close>

definition attackTile :: "Env \<Rightarrow> Game \<Rightarrow> Player \<Rightarrow> bool \<Rightarrow> ShotEffect \<Rightarrow> MapTile \<Rightarrow> ShotEffect" where
  "attackTile env g p isKamikaze acc tile =
     (case occupied tile of
        None \<Rightarrow> acc\<lparr>affectedTiles := affectedTiles acc @ [tile]\<rparr>
      | Some occ \<Rightarrow>
          (case roster_get occ (players g) of
             None \<Rightarrow> acc\<lparr>affectedTiles := affectedTiles acc @ [tile]\<rparr>
           | Some tilePlayer \<Rightarrow>
               if isTeammate tilePlayer p
               then acc
               else
                 (let dmg = shotDamage env isKamikaze p tilePlayer;
                      newHealth = max (hp tilePlayer - dmg) 0;
                      taken = hp tilePlayer - newHealth
                  in acc\<lparr>totalDamage := totalDamage acc + taken,
                         affectedPlayers := affectedPlayers acc @
                           [\<lparr>player = tilePlayer, oldHP = hp tilePlayer,
                             newHP = newHealth, damageTaken = taken\<rparr>],
                         killedPlayers :=
                           (if newHealth = 0 then killedPlayers acc @ [tilePlayer]
                            else killedPlayers acc),
                         affectedTiles := affectedTiles acc @ [tile]\<rparr>)))"

definition attackTiles :: "Env \<Rightarrow> Game \<Rightarrow> Player \<Rightarrow> bool \<Rightarrow> MapTile list \<Rightarrow> ShotEffect" where
  "attackTiles env g p isKamikaze tiles =
     foldl (attackTile env g p isKamikaze)
       \<lparr>affectedTiles = [], affectedPlayers = [], killedPlayers = [],
        pointsRequired = pointsPerShot p, totalDamage = 0\<rparr>
       tiles"

definition canAttack :: "Env \<Rightarrow> string \<Rightarrow> Coordinate \<Rightarrow> Game \<Rightarrow> error + ShotEffect" where
  "canAttack env uid c g =
     (if ended g then Inl GameHasEnded
      else case roster_get uid (players g) of
        None \<Rightarrow> Inl PlayerNotInGame
      | Some p \<Rightarrow>
          (case tryGetTile (gameMap g) c of
             None \<Rightarrow> Inl (TileDoesNotExist c)
           | Some tile \<Rightarrow>
               if sparse tile then Inl (TileOutOfBounds c)
               else
                 (let shotDistance = distanceBetweenStraightLine env (coords p) c
                  in if shotDistance > real_of_int (weaponRange (weapon p))
                     then Inl (OutOfRange c (weaponRange (weapon p)) shotDistance)
                     else if points p < pointsPerShot p
                     then Inl (NotEnoughPointsToAttack c (pointsPerShot p) (points p))
                     else
                       Inr (attackTiles env g p (isKamikazeShot p c)
                              (getTilesInRadius env (gameMap g) c (blastRadius p c) False)))))"

subsection \<open>\<open>checkForEndOfGame\<close>, \<open>doAttack\<close>\<close>

definition alivePlayers :: "Game \<Rightarrow> Player list" where
  "alivePlayers g = filter (\<lambda>p. \<not> dead p) (players g)"

text \<open>The \<open>Set<string>\<close> of the team names of the living players, as a list without repeats.\<close>

definition aliveTeams :: "Game \<Rightarrow> string list" where
  "aliveTeams g = remdups (concat (map (\<lambda>p. case team p of None \<Rightarrow> [] | Some t \<Rightarrow> [name t]) (alivePlayers g)))"

definition checkForEndOfGame :: "Game \<Rightarrow> bool \<times> Player list option" where
  "checkForEndOfGame g =
     (if length (alivePlayers g) = 0 then (True, Some [])
      else if length (alivePlayers g) = 1 \<or> length (aliveTeams g) = 1 then (True, Some (alivePlayers g))
      else (False, None))"

record ShotOutcome =
  shotEffect :: ShotEffect
  shotResult :: ShotResult
  outcomeEnded :: bool
  winners :: "Player list option"

text \<open>
  An entry of \<open>affectedPlayers\<close> refers to a player object; the object is the player of
  that \<open>userId\<close> in the living roster or, once killed, in the eliminated one.
\<close>

definition currentPlayer :: "Player \<Rightarrow> Game \<Rightarrow> Player" where
  "currentPlayer p g =
     (case roster_get (userId p) (players g) of
        Some q \<Rightarrow> q
      | None \<Rightarrow> (case roster_get (userId p) (deadPlayers g) of Some q \<Rightarrow> q | None \<Rightarrow> p))"

definition storePlayer :: "Player \<Rightarrow> Game \<Rightarrow> Game" where
  "storePlayer p g =
     (if roster_has (userId p) (players g) then g\<lparr>players := roster_set p (players g)\<rparr>
      else if roster_has (userId p) (deadPlayers g) then g\<lparr>deadPlayers := roster_set p (deadPlayers g)\<rparr>
      else g)"

text \<open>One round of the loop over \<open>result.affectedPlayers\<close>.\<close>

definition applyShotEffect :: "Player \<Rightarrow> bool \<Rightarrow> Game \<Rightarrow> PlayerShotEffect \<Rightarrow> Game" where
  "applyShotEffect attacker isKamikaze g e =
     (let damaged = receiveDamage (damageTaken e) (currentPlayer (player e) g);
          newHealth = hp damaged;
          g1 = storePlayer damaged g;
          g2 = (if newHealth = 0 then killPlayer damaged g1 else g1)
      in g2\<lparr>logMessages := logMessages g2 @
               (if newHealth = 0
                then [LogAwarded (userId attacker) (pointsPerKill attacker),
                      LogDamaged (userId damaged) (userId attacker) (damageTaken e) isKamikaze None]
                else [LogDamaged (userId damaged) (userId attacker) (damageTaken e) isKamikaze
                        (Some newHealth)])\<rparr>)"

text \<open>\<open>roll\<close> is the outcome of the attacker's probabilistic hit check.\<close>

definition doAttack :: "Env \<Rightarrow> bool \<Rightarrow> string \<Rightarrow> Coordinate \<Rightarrow> Game \<Rightarrow> (error + ShotOutcome) \<times> Game" where
  "doAttack env roll uid c g =
     (case canAttack env uid c g of
        Inl e \<Rightarrow> (Inl e, g)
      | Inr result \<Rightarrow>
          (case roster_get uid (players g) of
             None \<Rightarrow> (Inl (Thrown ''attacker is undefined''), g)
           | Some attacker \<Rightarrow>
               (let isKamikaze = isKamikazeShot attacker c;
                    g1 = g\<lparr>logMessages := logMessages g @
                            [if isKamikaze
                             then LogKamikazed uid (length (affectedPlayers result)) (totalDamage result)
                             else LogFired uid (length (affectedPlayers result)) (totalDamage result)
                                    (pointsPerShot attacker)]\<rparr>;
                    shot = attack roll c result isKamikaze attacker;
                    g2 = g1\<lparr>players := roster_set (snd shot) (players g1)\<rparr>
                in if fst shot = Miss
                   then (Inr \<lparr>shotEffect = result, shotResult = Miss,
                              outcomeEnded = False, winners = Some []\<rparr>, g2)
                   else
                     (let g3 = foldl (applyShotEffect (snd shot) isKamikaze) g2 (affectedPlayers result);
                          check = checkForEndOfGame g3;
                          g4 = (if fst check then cleanup (g3\<lparr>ended := True\<rparr>) else g3)
                      in (Inr \<lparr>shotEffect = result, shotResult = fst shot,
                                outcomeEnded = fst check, winners = snd check\<rparr>, g4)))))"

subsection \<open>The matches the code reaches\<close>

text \<open>
  A match is constructed and then changed by the methods alone: \<open>join\<close>,
  \<open>moveToCoord\<close>, \<open>doAttack\<close>, the tick, \<open>cleanup\<close>, and \<open>loadFromDB\<close>, which
  restores one stored row after the other. A roster is a JavaScript \<open>Map\<close>, which
  cannot hold \<open>Number.MAX_SAFE_INTEGER\<close> entries, so a join finds fewer players
  than that.
\<close>

inductive reachable :: "Env \<Rightarrow> Game \<Rightarrow> bool" for env :: Env where
  constructed: "newGame env tiles r = Inr g \<Longrightarrow> reachable env g"
| joined:
    "reachable env g \<Longrightarrow> int (length (players g)) \<le> MAX_SAFE_INTEGER \<Longrightarrow>
     reachable env (snd (join env uid hp0 points0 c storedTeam g))"
| moved: "reachable env g \<Longrightarrow> reachable env (snd (moveToCoord env uid c g))"
| attacked: "reachable env g \<Longrightarrow> reachable env (snd (doAttack env roll uid c g))"
| ticked: "reachable env g \<Longrightarrow> reachable env (handleGameTick env g)"
| cleaned: "reachable env g \<Longrightarrow> reachable env (cleanup g)"
| restored:
    "reachable env g \<Longrightarrow> int (length (players g)) \<le> MAX_SAFE_INTEGER \<Longrightarrow>
     reachable env (loadRows env [row] g)"

text \<open>
  Every player of both rosters has a team when the rules configure teams, and none
  has otherwise; a configured team list is not empty.
\<close>

definition teamsUniform :: "Game \<Rightarrow> bool" where
  "teamsUniform g =
     (case teams (rules g) of
        None \<Rightarrow> \<forall>p\<in>set (players g) \<union> set (deadPlayers g). team p = None
      | Some ts \<Rightarrow> ts \<noteq> [] \<and> (\<forall>p\<in>set (players g) \<union> set (deadPlayers g). team p \<noteq> None))"

subsection \<open>An instance of the parameters\<close>

text \<open>
  Modelled from the spec: the constants are those of the spec's scenario (starting
  health 100, starting points 20, 5 points a move, 10 points a shot, a weapon of
  damage 30, radius 1 and range 5), with a kill reward, a tick income and a tick
  interval chosen beside them. The tile map is a square grid: distances and radii
  are counted in tiles along the longer axis, a move costs the mover's points per
  move for each tile, onto a tile that exists and is free, and the first free tile
  is the unoccupied square. The user \<open>''kami''\<close> holds the self-destruct perk.
\<close>

definition tileDistance :: "Coordinate \<Rightarrow> Coordinate \<Rightarrow> int" where
  "tileDistance a b = max \<bar>coord_x a - coord_x b\<bar> \<bar>coord_y a - coord_y b\<bar>"

definition exampleCanMoveTo :: "MapTile list \<Rightarrow> Coordinate \<Rightarrow> Player \<Rightarrow> error + MoveCost" where
  "exampleCanMoveTo tiles c p =
     (case tryGetTile tiles c of
        None \<Rightarrow> Inl (MapError ''No such tile'')
      | Some t \<Rightarrow>
          if sparse t \<or> occupied t \<noteq> None then Inl (MapError ''Tile is not free'')
          else Inr \<lparr>movePointsRequired = pointsPerMove p * tileDistance (coords p) c,
                    tilesTraversed = tileDistance (coords p) c\<rparr>)"

definition exampleEnv :: Env where
  "exampleEnv = \<lparr>
     DEFAULT_STARTING_HP = 100,
     DEFAULT_STARTING_POINTS = 20,
     POINTS_PER_MOVE = 5,
     POINTS_PER_SHOT = 10,
     POINTS_PER_KILL = 10,
     POINTS_PER_TICK = 1,
     MILLISECONDS_PER_TICK = 60000,
     SmallMissile = \<lparr>weaponName = ''Small Missile'', damage = 30, radius = 1, weaponRange = 5\<rparr>,
     loadPerk = (\<lambda>uid. if uid = ''kami'' then Some Kamikaze else None),
     canMoveTo = exampleCanMoveTo,
     distanceBetweenStraightLine = (\<lambda>a b. real_of_int (tileDistance a b)),
     getTilesInRadius = (\<lambda>tiles c r diagonal. filter (\<lambda>t. tileDistance (tileCoords t) c \<le> r) tiles),
     getUnoccupiedSquare = find (\<lambda>t. occupied t = None \<and> \<not> sparse t)
   \<rparr>"

definition freeTile :: "int \<Rightarrow> int \<Rightarrow> MapTile" where
  "freeTile cx cy = \<lparr>tileCoords = Coordinate cx cy, sparse = False, occupied = None\<rparr>"

text \<open>A map of three by three tiles, row by row.\<close>

definition exampleTiles :: "MapTile list" where
  "exampleTiles =
     [freeTile 0 0, freeTile 1 0, freeTile 2 0,
      freeTile 0 1, freeTile 1 1, freeTile 2 1,
      freeTile 0 2, freeTile 1 2, freeTile 2 2]"

definition noRules :: PartialGameRules where
  "noRules = \<lparr>
     teams_opt = None,
     millisecondsPerTick_opt = None,
     defaultStartingHp_opt = None,
     defaultStartingPoints_opt = None,
     defaultPointsPerMove_opt = None,
     defaultPointsPerShot_opt = None,
     defaultPointsPerTick_opt = None,
     defaultPointsPerKill_opt = None
   \<rparr>"

subsection \<open>Example matches\<close>

text \<open>
  Matches on the three by three map, built with the constructor and \<open>join\<close>.
  \<open>startGame r\<close> is the match the constructor returns for the rules \<open>r\<close>.
\<close>

definition startGame :: "PartialGameRules \<Rightarrow> Game" where
  "startGame r = projr (newGame exampleEnv exampleTiles r)"

definition red :: Team where
  "red = \<lparr>name = ''red'', body = None\<rparr>"

definition blue :: Team where
  "blue = \<lparr>name = ''blue'', body = None\<rparr>"

definition green :: Team where
  "green = \<lparr>name = ''green'', body = None\<rparr>"

text \<open>
  Three players and no teams: \<open>a\<close> on (0,0), \<open>b\<close> on (2,0) with 30 health left, and
  \<open>c\<close> on (0,2) with 3 points.
\<close>

definition skirmishGame :: Game where
  "skirmishGame =
     snd (join exampleEnv ''c'' None (Some 3) (Some (Coordinate 0 2)) None
       (snd (join exampleEnv ''b'' (Some 30) None (Some (Coordinate 2 0)) None
         (snd (join exampleEnv ''a'' None None None None (startGame noRules))))))"

text \<open>Teams red and blue: \<open>a\<close> (red) on (0,0), \<open>b\<close> (blue) on (1,0), \<open>c\<close> (red) on (2,0).\<close>

definition teamRules :: PartialGameRules where
  "teamRules = noRules\<lparr>teams_opt := Some [red, blue]\<rparr>"

definition teamGame :: Game where
  "teamGame =
     snd (join exampleEnv ''c'' None None (Some (Coordinate 2 0)) (Some ''red'')
       (snd (join exampleEnv ''b'' None None (Some (Coordinate 1 0)) (Some ''blue'')
         (snd (join exampleEnv ''a'' None None (Some (Coordinate 0 0)) (Some ''red'')
           (startGame teamRules))))))"

text \<open>
  A rule set that overrides the starting health with 200: \<open>kami\<close>, who holds the
  self-destruct perk, on (0,0), \<open>b\<close> on (1,0) and \<open>c\<close> on (2,0).
\<close>

definition kamikazeGame :: Game where
  "kamikazeGame =
     snd (join exampleEnv ''c'' None None None None
       (snd (join exampleEnv ''b'' None None None None
         (snd (join exampleEnv ''kami'' None None None None
           (startGame (noRules\<lparr>defaultStartingHp_opt := Some 200\<rparr>)))))))"

text \<open>Shots in these matches: the outcome of \<open>doAttack\<close>, or the preview of \<open>canAttack\<close>.\<close>

definition skirmishShot :: "(error + ShotOutcome) \<times> Game" where
  "skirmishShot = doAttack exampleEnv True ''a'' (Coordinate 2 0) skirmishGame"

definition teamShot :: ShotEffect where
  "teamShot = projr (canAttack exampleEnv ''a'' (Coordinate 1 0) teamGame)"

definition kamikazeShot :: ShotEffect where
  "kamikazeShot = projr (canAttack exampleEnv ''kami'' (Coordinate 0 0) kamikazeGame)"

text \<open>The first join of a match with the teams red and blue, no team stored.\<close>

definition firstTeamJoin :: "(error + Player) \<times> Game" where
  "firstTeamJoin = join exampleEnv ''a'' None None None None (startGame teamRules)"

text \<open>
  Teams red, blue and green with 3, 1 and 2 living members, each restored from its
  stored name, and the join of \<open>n\<close>, who has no stored team.
\<close>

definition threeTeamGame :: Game where
  "threeTeamGame =
     snd (join exampleEnv ''g2'' None None None (Some ''green'')
       (snd (join exampleEnv ''g1'' None None None (Some ''green'')
         (snd (join exampleEnv ''b1'' None None None (Some ''blue'')
           (snd (join exampleEnv ''r3'' None None None (Some ''red'')
             (snd (join exampleEnv ''r2'' None None None (Some ''red'')
               (snd (join exampleEnv ''r1'' None None None (Some ''red'')
                 (startGame (noRules\<lparr>teams_opt := Some [red, blue, green]\<rparr>)))))))))))))"

definition nextTeamJoin :: "(error + Player) \<times> Game" where
  "nextTeamJoin = join exampleEnv ''n'' None None None None threeTeamGame"

text \<open>A rule set with a tick interval of 1000 milliseconds, and two players.\<close>

definition tickGame :: Game where
  "tickGame =
     snd (join exampleEnv ''b'' None None None None
       (snd (join exampleEnv ''a'' None None None None
         (startGame (noRules\<lparr>millisecondsPerTick_opt := Some 1000\<rparr>)))))"

text \<open>Player \<open>a\<close> has joined on (0,0); \<open>b\<close> joins with the coordinate (0,0).\<close>

definition oneGame :: Game where
  "oneGame = snd (join exampleEnv ''a'' None None None None (startGame noRules))"

definition overlapJoin :: "(error + Player) \<times> Game" where
  "overlapJoin = join exampleEnv ''b'' None None (Some (Coordinate 0 0)) None oneGame"

section \<open>Lemmas\<close>

subsection \<open>Rosters\<close>

lemma roster_get_userId: "roster_get uid ps = Some p \<Longrightarrow> userId p = uid"
  by (auto simp: roster_get_def find_Some_iff)

lemma find_map_replace:
  "userId q \<noteq> uid \<Longrightarrow>
   find (\<lambda>p. userId p = uid) (map (\<lambda>r. if userId r = userId q then q else r) ps) =
   find (\<lambda>p. userId p = uid) ps"
  by (induction ps) auto

lemma find_snoc_other:
  "userId q \<noteq> uid \<Longrightarrow> find (\<lambda>p. userId p = uid) (ps @ [q]) = find (\<lambda>p. userId p = uid) ps"
  by (induction ps) auto

lemma roster_get_set_other:
  "userId q \<noteq> uid \<Longrightarrow> roster_get uid (roster_set q ps) = roster_get uid ps"
  by (simp add: roster_get_def roster_set_def find_map_replace find_snoc_other)

lemma roster_get_delete_other:
  "uid' \<noteq> uid \<Longrightarrow> roster_get uid (roster_delete uid' ps) = roster_get uid ps"
  by (induction ps) (auto simp: roster_get_def roster_delete_def)

subsection \<open>The end-of-match check\<close>

lemma applyShotEffect_ended: "ended (applyShotEffect a k g e) = ended g"
  by (simp add: applyShotEffect_def Let_def storePlayer_def killPlayer_def)

lemma foldl_applyShotEffect_ended: "ended (foldl (applyShotEffect a k) g es) = ended g"
  by (induction es arbitrary: g) (simp_all add: applyShotEffect_ended)

lemma canAttack_not_ended: "canAttack env uid c g = Inr r \<Longrightarrow> \<not> ended g"
  by (auto simp: canAttack_def split: if_splits)

lemma length_remdups_one: "length (remdups xs) = 1 \<longleftrightarrow> (\<exists>n. set xs = {n})"
proof -
  have "length (remdups xs) = card (set xs)" by (simp add: card_set)
  then show ?thesis by (simp add: card_1_singleton_iff)
qed

lemma checkForEndOfGame_players:
  "checkForEndOfGame (g\<lparr>ended := b\<rparr>) = checkForEndOfGame g"
  "checkForEndOfGame (cleanup g) = checkForEndOfGame g"
  "alivePlayers (g\<lparr>ended := b\<rparr>) = alivePlayers g"
  "alivePlayers (cleanup g) = alivePlayers g"
  "ended (cleanup g) = ended g"
  by (simp_all add: checkForEndOfGame_def alivePlayers_def aliveTeams_def cleanup_def)

lemma teamNames_set:
  "set (concat (map (\<lambda>p. case team p of None \<Rightarrow> [] | Some t \<Rightarrow> [name t]) ps)) =
     {n. \<exists>p\<in>set ps. \<exists>t. team p = Some t \<and> name t = n}"
proof (induction ps)
  case Nil
  then show ?case by simp
next
  case (Cons q ps)
  show ?case
  proof (cases "team q")
    case None
    then show ?thesis using Cons.IH by auto
  next
    case (Some t)
    then show ?thesis using Cons.IH by auto
  qed
qed

lemma aliveTeams_one:
  "length (aliveTeams g) = 1 \<longleftrightarrow>
     (\<exists>n. (\<exists>p\<in>set (alivePlayers g). \<exists>t. team p = Some t \<and> name t = n) \<and>
          (\<forall>p\<in>set (alivePlayers g). \<forall>t. team p = Some t \<longrightarrow> name t = n))"
  (is "?L \<longleftrightarrow> ?R")
proof -
  let ?S = "{n. \<exists>p\<in>set (alivePlayers g). \<exists>t. team p = Some t \<and> name t = n}"
  have l: "?L \<longleftrightarrow> (\<exists>n. ?S = {n})"
    unfolding aliveTeams_def length_remdups_one set_remdups teamNames_set ..
  have "(\<exists>n. ?S = {n}) \<longleftrightarrow> ?R"
  proof
    assume "\<exists>n. ?S = {n}"
    then obtain n where n: "?S = {n}" ..
    then have "n \<in> ?S" by simp
    moreover have "\<forall>m\<in>?S. m = n" using n by simp
    ultimately show ?R by blast
  next
    assume ?R
    then obtain n where a: "\<exists>p\<in>set (alivePlayers g). \<exists>t. team p = Some t \<and> name t = n"
      and b: "\<forall>p\<in>set (alivePlayers g). \<forall>t. team p = Some t \<longrightarrow> name t = n" by blast
    have "?S = {n}"
    proof (rule set_eqI)
      fix m show "m \<in> ?S \<longleftrightarrow> m \<in> {n}" using a b by blast
    qed
    then show "\<exists>n. ?S = {n}" ..
  qed
  with l show ?thesis by simp
qed

lemma doAttack_hit_state:
  assumes "doAttack env roll uid c g = (Inr out, g')" and "shotResult out = Hit"
  shows "ended g' = fst (checkForEndOfGame g') \<and> outcomeEnded out = ended g'"
proof -
  from assms(1) obtain result where r: "canAttack env uid c g = Inr result"
    by (auto simp: doAttack_def split: sum.splits)
  from assms(1) r obtain attacker where a: "roster_get uid (players g) = Some attacker"
    by (auto simp: doAttack_def split: option.splits)
  have ne: "\<not> ended g" using r by (rule canAttack_not_ended)
  show ?thesis
    using assms r a ne
    by (auto simp: doAttack_def Let_def checkForEndOfGame_players foldl_applyShotEffect_ended
          split: if_splits)
qed

lemma doAttack_hit_ended_general:
  assumes "doAttack env roll uid c g = (Inr out, g')" and "shotResult out = Hit"
  shows "(ended g' \<longleftrightarrow>
           length (alivePlayers g') = 0 \<or> length (alivePlayers g') = 1 \<or>
           (\<exists>n. (\<exists>p\<in>set (alivePlayers g'). \<exists>t. team p = Some t \<and> name t = n) \<and>
                (\<forall>p\<in>set (alivePlayers g'). \<forall>t. team p = Some t \<longrightarrow> name t = n))) \<and>
         ((\<forall>p\<in>set (alivePlayers g'). team p \<noteq> None) \<or> (\<forall>p\<in>set (alivePlayers g'). team p = None) \<longrightarrow>
            (ended g' \<longleftrightarrow>
               length (alivePlayers g') = 0 \<or> length (alivePlayers g') = 1 \<or>
               (\<exists>n. \<forall>p\<in>set (alivePlayers g'). \<exists>t. team p = Some t \<and> name t = n)))"
proof -
  let ?alive = "alivePlayers g'"
  let ?T = "\<exists>n. (\<exists>p\<in>set ?alive. \<exists>t. team p = Some t \<and> name t = n) \<and>
                (\<forall>p\<in>set ?alive. \<forall>t. team p = Some t \<longrightarrow> name t = n)"
  let ?T' = "\<exists>n. \<forall>p\<in>set ?alive. \<exists>t. team p = Some t \<and> name t = n"
  have "ended g' = fst (checkForEndOfGame g')" using doAttack_hit_state [OF assms] by simp
  also have "\<dots> \<longleftrightarrow> length ?alive = 0 \<or> length ?alive = 1 \<or> length (aliveTeams g') = 1"
    by (simp add: checkForEndOfGame_def)
  finally have main: "ended g' \<longleftrightarrow> length ?alive = 0 \<or> length ?alive = 1 \<or> ?T"
    unfolding aliveTeams_one .
  have uniform: "ended g' \<longleftrightarrow> length ?alive = 0 \<or> length ?alive = 1 \<or> ?T'"
    if u: "(\<forall>p\<in>set ?alive. team p \<noteq> None) \<or> (\<forall>p\<in>set ?alive. team p = None)"
  proof (cases "?alive = []")
    case True
    then show ?thesis using main by simp
  next
    case False
    then obtain q where q: "q \<in> set ?alive" by (cases ?alive) auto
    have "?T \<longleftrightarrow> ?T'"
    proof
      assume ?T
      then obtain n p0 t0 where p0: "p0 \<in> set ?alive" "team p0 = Some t0"
        and al: "\<forall>p\<in>set ?alive. \<forall>t. team p = Some t \<longrightarrow> name t = n" by blast
      from u p0 have "\<forall>p\<in>set ?alive. team p \<noteq> None" by auto
      with al have "\<forall>p\<in>set ?alive. \<exists>t. team p = Some t \<and> name t = n" by auto
      then show ?T' ..
    next
      assume ?T'
      then obtain n where n: "\<forall>p\<in>set ?alive. \<exists>t. team p = Some t \<and> name t = n" ..
      with q have "\<exists>p\<in>set ?alive. \<exists>t. team p = Some t \<and> name t = n" by blast
      moreover from n have "\<forall>p\<in>set ?alive. \<forall>t. team p = Some t \<longrightarrow> name t = n" by auto
      ultimately show ?T by blast
    qed
    with main show ?thesis by simp
  qed
  from main uniform show ?thesis by blast
qed

subsection \<open>The attack loop\<close>

lemma attackTile_players:
  "affectedPlayers (attackTile env g p k acc tile) = affectedPlayers acc \<or>
   (\<exists>occ tp. occupied tile = Some occ \<and> roster_get occ (players g) = Some tp \<and> \<not> isTeammate tp p \<and>
      affectedPlayers (attackTile env g p k acc tile) = affectedPlayers acc @
        [\<lparr>player = tp, oldHP = hp tp, newHP = max (hp tp - shotDamage env k p tp) 0,
          damageTaken = hp tp - max (hp tp - shotDamage env k p tp) 0\<rparr>])"
  by (simp add: attackTile_def Let_def split: option.splits)

lemma attackTile_hit:
  "occupied tile = Some occ \<Longrightarrow> roster_get occ (players g) = Some tp \<Longrightarrow> \<not> isTeammate tp p \<Longrightarrow>
   affectedPlayers (attackTile env g p k acc tile) = affectedPlayers acc @
        [\<lparr>player = tp, oldHP = hp tp, newHP = max (hp tp - shotDamage env k p tp) 0,
          damageTaken = hp tp - max (hp tp - shotDamage env k p tp) 0\<rparr>]"
  by (simp add: attackTile_def Let_def)

lemma attackTile_tiles:
  "affectedTiles (attackTile env g p k acc tile) =
     (if (\<exists>occ tp. occupied tile = Some occ \<and> roster_get occ (players g) = Some tp \<and> isTeammate tp p)
      then affectedTiles acc else affectedTiles acc @ [tile])"
  by (auto simp add: attackTile_def Let_def split: option.splits)

lemma attackTile_total:
  "totalDamage acc = sum_list (map damageTaken (affectedPlayers acc)) \<Longrightarrow>
   totalDamage (attackTile env g p k acc tile) =
     sum_list (map damageTaken (affectedPlayers (attackTile env g p k acc tile)))"
  by (simp add: attackTile_def Let_def split: option.splits)

lemma foldl_attackTile_keeps:
  "e \<in> set (affectedPlayers acc) \<Longrightarrow>
   e \<in> set (affectedPlayers (foldl (attackTile env g p k) acc tiles))"
proof (induction tiles arbitrary: acc)
  case Nil
  then show ?case by simp
next
  case (Cons t ts)
  have "e \<in> set (affectedPlayers (attackTile env g p k acc t))"
    using attackTile_players [of env g p k acc t] Cons.prems by auto
  from Cons.IH [OF this] show ?case by simp
qed

lemma foldl_attackTile_entries:
  "e \<in> set (affectedPlayers (foldl (attackTile env g p k) acc tiles)) \<Longrightarrow>
   e \<in> set (affectedPlayers acc) \<or> (roster_get (userId (player e)) (players g) = Some (player e) \<and>
    \<not> isTeammate (player e) p \<and>
    oldHP e = hp (player e) \<and>
    newHP e = max (hp (player e) - shotDamage env k p (player e)) 0 \<and>
    damageTaken e = hp (player e) - newHP e)"
proof (induction tiles arbitrary: acc)
  case Nil
  then show ?case by simp
next
  case (Cons t ts)
  from Cons.prems have "e \<in> set (affectedPlayers (foldl (attackTile env g p k) (attackTile env g p k acc t) ts))"
    by simp
  from Cons.IH [OF this] show ?case
  proof
    assume m: "e \<in> set (affectedPlayers (attackTile env g p k acc t))"
    from attackTile_players [of env g p k acc t] show ?thesis
    proof (elim disjE exE conjE)
      assume "affectedPlayers (attackTile env g p k acc t) = affectedPlayers acc"
      with m show ?thesis by simp
    next
      fix occ tp
      assume o: "occupied t = Some occ" and r: "roster_get occ (players g) = Some tp"
        and nt: "\<not> isTeammate tp p"
        and eq: "affectedPlayers (attackTile env g p k acc t) = affectedPlayers acc @
        [\<lparr>player = tp, oldHP = hp tp, newHP = max (hp tp - shotDamage env k p tp) 0,
          damageTaken = hp tp - max (hp tp - shotDamage env k p tp) 0\<rparr>]"
      have id: "userId tp = occ" using r by (rule roster_get_userId)
      from m eq have "e \<in> set (affectedPlayers acc) \<or>
         e = \<lparr>player = tp, oldHP = hp tp, newHP = max (hp tp - shotDamage env k p tp) 0,
          damageTaken = hp tp - max (hp tp - shotDamage env k p tp) 0\<rparr>" by auto
      then show ?thesis
      proof
        assume "e \<in> set (affectedPlayers acc)" then show ?thesis ..
      next
        assume "e = \<lparr>player = tp, oldHP = hp tp, newHP = max (hp tp - shotDamage env k p tp) 0,
          damageTaken = hp tp - max (hp tp - shotDamage env k p tp) 0\<rparr>"
        then have "(roster_get (userId (player e)) (players g) = Some (player e) \<and>
    \<not> isTeammate (player e) p \<and>
    oldHP e = hp (player e) \<and>
    newHP e = max (hp (player e) - shotDamage env k p (player e)) 0 \<and>
    damageTaken e = hp (player e) - newHP e)" using r nt id by simp
        then show ?thesis ..
      qed
    qed
  next
    assume "(roster_get (userId (player e)) (players g) = Some (player e) \<and>
    \<not> isTeammate (player e) p \<and>
    oldHP e = hp (player e) \<and>
    newHP e = max (hp (player e) - shotDamage env k p (player e)) 0 \<and>
    damageTaken e = hp (player e) - newHP e)" then show ?thesis ..
  qed
qed

lemma foldl_attackTile_complete:
  "tile \<in> set tiles \<Longrightarrow> occupied tile = Some occ \<Longrightarrow> roster_get occ (players g) = Some tp \<Longrightarrow>
   \<not> isTeammate tp p \<Longrightarrow>
   \<exists>e\<in>set (affectedPlayers (foldl (attackTile env g p k) acc tiles)). player e = tp"
proof (induction tiles arbitrary: acc)
  case Nil
  then show ?case by simp
next
  case (Cons t rest)
  show ?case
  proof (cases "t = tile")
    case True
    let ?e = "\<lparr>player = tp, oldHP = hp tp,
                newHP = max (hp tp - shotDamage env k p tp) 0,
                damageTaken = hp tp - max (hp tp - shotDamage env k p tp) 0\<rparr>"
    have "?e \<in> set (affectedPlayers (attackTile env g p k acc t))"
      using True attackTile_hit [OF Cons.prems(2,3,4), of env k acc] by simp
    then have "?e \<in> set (affectedPlayers (foldl (attackTile env g p k) acc (t # rest)))"
      by (simp add: foldl_attackTile_keeps)
    moreover have "player ?e = tp" by simp
    ultimately show ?thesis by blast
  next
    case False
    then have "tile \<in> set rest" using Cons.prems by simp
    from Cons.IH [OF this Cons.prems(2,3,4)] show ?thesis by simp
  qed
qed

lemma foldl_attackTile_tiles:
  "affectedTiles (foldl (attackTile env g p k) acc tiles) =
     affectedTiles acc @
     filter (\<lambda>tile. \<not> (\<exists>occ tp. occupied tile = Some occ \<and> roster_get occ (players g) = Some tp \<and> isTeammate tp p)) tiles"
  by (induction tiles arbitrary: acc) (simp_all add: attackTile_tiles)

lemma foldl_attackTile_total:
  "totalDamage acc = sum_list (map damageTaken (affectedPlayers acc)) \<Longrightarrow>
   totalDamage (foldl (attackTile env g p k) acc tiles) =
     sum_list (map damageTaken (affectedPlayers (foldl (attackTile env g p k) acc tiles)))"
  by (induction tiles arbitrary: acc) (simp_all add: attackTile_total)

lemma canAttack_result:
  assumes "canAttack env uid c g = Inr result" and "roster_get uid (players g) = Some p"
  shows "result = attackTiles env g p (isKamikazeShot p c)
                    (getTilesInRadius env (gameMap g) c (blastRadius p c) False)"
  using assms by (auto simp: canAttack_def Let_def split: if_splits option.splits)

subsection \<open>Players an attack does not touch\<close>

lemma currentPlayer_userId: "userId (currentPlayer q g) = userId q"
  by (auto simp: currentPlayer_def dest: roster_get_userId split: option.splits)

lemma applyShotEffect_get_other:
  assumes "userId (player e) \<noteq> uid"
  shows "roster_get uid (players (applyShotEffect a k g e)) = roster_get uid (players g)"
proof -
  let ?d = "receiveDamage (damageTaken e) (currentPlayer (player e) g)"
  have d: "userId ?d \<noteq> uid" using assms by (simp add: receiveDamage_def currentPlayer_userId)
  have s: "roster_get uid (players (storePlayer ?d g)) = roster_get uid (players g)"
    using d by (simp add: storePlayer_def roster_get_set_other)
  have k: "roster_get uid (players (killPlayer ?d (storePlayer ?d g))) = roster_get uid (players g)"
    using d s by (simp add: killPlayer_def roster_get_delete_other)
  show ?thesis using s k by (simp add: applyShotEffect_def Let_def)
qed

lemma foldl_applyShotEffect_get_other:
  "\<forall>e\<in>set es. userId (player e) \<noteq> uid \<Longrightarrow>
   roster_get uid (players (foldl (applyShotEffect a k) g es)) = roster_get uid (players g)"
  by (induction es arbitrary: g) (simp_all add: applyShotEffect_get_other)

lemma attack_userId: "userId (snd (attack roll c r k p)) = userId p"
  by (simp add: attack_def Let_def)

lemma doAttack_get_other:
  assumes r: "canAttack env uid c g = Inr result"
    and o: "\<forall>e\<in>set (affectedPlayers result). userId (player e) \<noteq> other"
    and ne: "other \<noteq> uid"
  shows "roster_get other (players (snd (doAttack env roll uid c g))) = roster_get other (players g)"
proof -
  from r obtain attacker where a: "roster_get uid (players g) = Some attacker"
    by (auto simp: canAttack_def split: if_splits option.splits)
  have u: "userId attacker = uid" using a by (rule roster_get_userId)
  have au: "userId (snd (attack roll c result k attacker)) \<noteq> other" for k
    using u ne by (simp add: attack_userId)
  show ?thesis
    using r a o au
    by (simp add: doAttack_def Let_def cleanup_def foldl_applyShotEffect_get_other roster_get_set_other)
qed

subsection \<open>Choosing a team\<close>

lemma mapSet_new: "k \<notin> fst ` set m \<Longrightarrow> mapSet k v m = m @ [(k, v)]"
  by (induction m) auto

lemma mapSet_append_in:
  "k \<in> fst ` set a \<Longrightarrow> mapSet k v (a @ b) = mapSet k v a @ b"
proof (induction a)
  case Nil
  then show ?case by simp
next
  case (Cons x a)
  show ?case
  proof (cases "fst x = k")
    case True
    then show ?thesis by (cases x) simp
  next
    case False
    then have "k \<in> fst ` set a" using Cons.prems by auto
    from Cons.IH [OF this] False show ?thesis by (cases x) simp
  qed
qed

lemma mapSet_append_out:
  "k \<notin> fst ` set a \<Longrightarrow> mapSet k v (a @ b) = a @ mapSet k v b"
  by (induction a) auto

lemma mapSet_append:
  "mapSet k v (a @ b) = (if k \<in> fst ` set a then mapSet k v a @ b else a @ mapSet k v b)"
  by (simp add: mapSet_append_in mapSet_append_out)

lemma mapSet_values: "(k', v') \<in> set (mapSet k v m) \<Longrightarrow> (k', v') \<in> set m \<or> (k' = k \<and> v' = v)"
  by (induction m) (auto split: if_splits)

lemma mapSet_table:
  "distinct ts \<Longrightarrow> t \<in> set ts \<Longrightarrow>
   mapSet t v (map (\<lambda>u. (u, f u)) ts) = map (\<lambda>u. (u, if u = t then v else f u)) ts"
  by (induction ts) auto

lemma map_of_table: "t \<in> set ts \<Longrightarrow> map_of (map (\<lambda>u. (u, f u)) ts) t = Some (f t)"
  by (induction ts) auto

lemma initCounts_fold:
  "distinct ts \<Longrightarrow> set ts \<inter> fst ` set m = {} \<Longrightarrow>
   foldl (\<lambda>m t. mapSet t (Some 0) m) m ts = m @ map (\<lambda>t. (t, Some 0)) ts"
proof (induction ts arbitrary: m)
  case Nil
  then show ?case by simp
next
  case (Cons t ts)
  have n: "t \<notin> fst ` set m" using Cons.prems by auto
  have "set ts \<inter> fst ` set (m @ [(t, Some 0)]) = {}" using Cons.prems by auto
  from Cons.IH [OF _ this] Cons.prems(1) show ?case by (simp add: mapSet_new [OF n])
qed

lemma initCounts_distinct: "distinct ts \<Longrightarrow> initCounts ts = map (\<lambda>t. (t, Some 0)) ts"
  using initCounts_fold [of ts "[]"] by (simp add: initCounts_def)

lemma livingMembers_snoc:
  "livingMembers (ps @ [p]) t = (if team p = Some t then livingMembers ps t + 1 else livingMembers ps t)"
  by (simp add: livingMembers_def)

lemma countPlayer_table:
  assumes d: "distinct ts"
    and e: "\<forall>kv\<in>set extra. fst kv \<notin> set ts \<and> snd kv = None"
  shows "\<exists>extra'. countPlayer (map (\<lambda>t. (t, Some (livingMembers ps t))) ts @ extra) p =
                   map (\<lambda>t. (t, Some (livingMembers (ps @ [p]) t))) ts @ extra' \<and>
                 (\<forall>kv\<in>set extra'. fst kv \<notin> set ts \<and> snd kv = None)"
proof (cases "team p")
  case None
  then show ?thesis using e by (auto simp: countPlayer_def livingMembers_snoc)
next
  case (Some t)
  let ?A = "map (\<lambda>t. (t, Some (livingMembers ps t))) ts"
  have keys: "fst ` set ?A = set ts" by force
  show ?thesis
  proof (cases "t \<in> set ts")
    case True
    have l: "map_of (?A @ extra) t = Some (Some (livingMembers ps t))"
      using True by (simp add: map_of_table)
    have "countPlayer (?A @ extra) p = mapSet t (Some (livingMembers ps t + 1)) ?A @ extra"
      using Some l True keys by (simp add: countPlayer_def mapSet_append)
    also have "mapSet t (Some (livingMembers ps t + 1)) ?A =
               map (\<lambda>u. (u, if u = t then Some (livingMembers ps t + 1) else Some (livingMembers ps u))) ts"
      by (rule mapSet_table [OF d True])
    also have "\<dots> = map (\<lambda>t. (t, Some (livingMembers (ps @ [p]) t))) ts"
      using Some by (auto simp: livingMembers_snoc)
    finally show ?thesis using e by blast
  next
    case False
    have "map_of ?A t = None" using False keys by (simp add: map_of_eq_None_iff)
    then have l: "map_of (?A @ extra) t = map_of extra t" by (simp add: map_add_def)
    have v: "map_of extra t = None \<or> map_of extra t = Some None"
    proof (cases "map_of extra t")
      case None then show ?thesis by simp
    next
      case (Some v)
      then have "(t, v) \<in> set extra" by (rule map_of_SomeD)
      then have "v = None" using e by auto
      then show ?thesis using Some by simp
    qed
    have c: "countPlayer (?A @ extra) p = ?A @ mapSet t None extra"
      using Some l v False keys by (auto simp: countPlayer_def mapSet_append)
    have s: "map (\<lambda>t. (t, Some (livingMembers (ps @ [p]) t))) ts = ?A"
      using Some False by (auto simp: livingMembers_snoc)
    have "\<forall>kv\<in>set (mapSet t None extra). fst kv \<notin> set ts \<and> snd kv = None"
    proof
      fix kv assume "kv \<in> set (mapSet t None extra)"
      then have "(fst kv, snd kv) \<in> set (mapSet t None extra)" by simp
      from mapSet_values [OF this] show "fst kv \<notin> set ts \<and> snd kv = None"
        using e False by auto
    qed
    with c s show ?thesis by metis
  qed
qed

lemma teamUserCount_table:
  assumes d: "distinct ts"
  shows "\<exists>extra. foldl countPlayer (initCounts ts) ps =
                   map (\<lambda>t. (t, Some (livingMembers ps t))) ts @ extra \<and>
                 (\<forall>kv\<in>set extra. fst kv \<notin> set ts \<and> snd kv = None)"
proof (induction ps rule: rev_induct)
  case Nil
  show ?case using initCounts_distinct [OF d] by (simp add: livingMembers_def)
next
  case (snoc p ps)
  then obtain extra where
    f: "foldl countPlayer (initCounts ts) ps = map (\<lambda>t. (t, Some (livingMembers ps t))) ts @ extra"
    and e: "\<forall>kv\<in>set extra. fst kv \<notin> set ts \<and> snd kv = None" by blast
  from countPlayer_table [OF d e, of ps p] show ?case by (simp add: f)
qed

lemma pickMinimum_none: "\<forall>kv\<in>set extra. snd kv = None \<Longrightarrow> foldl pickMinimum acc extra = acc"
  by (induction extra arbitrary: acc) (simp_all add: pickMinimum_def)

lemma pickMinimum_table:
  "snd (foldl pickMinimum (None, M) (map (\<lambda>t. (t, Some (c t))) ts)) \<le> M \<and>
   (\<forall>t\<in>set ts. snd (foldl pickMinimum (None, M) (map (\<lambda>t. (t, Some (c t))) ts)) \<le> c t) \<and>
   ((\<forall>t\<in>set ts. M < c t) \<longrightarrow> foldl pickMinimum (None, M) (map (\<lambda>t. (t, Some (c t))) ts) = (None, M)) \<and>
   ((\<exists>t\<in>set ts. c t \<le> M) \<longrightarrow>
      (\<exists>i<length ts. foldl pickMinimum (None, M) (map (\<lambda>t. (t, Some (c t))) ts) = (Some (ts ! i), c (ts ! i)) \<and>
          (\<forall>j<length ts. i < j \<longrightarrow> c (ts ! i) < c (ts ! j))))"
  (is "?P ts")
proof (induction ts rule: rev_induct)
  case Nil
  show ?case by simp
next
  case (snoc t ts)
  let ?r = "foldl pickMinimum (None, M) (map (\<lambda>t. (t, Some (c t))) ts)"
  let ?r' = "foldl pickMinimum (None, M) (map (\<lambda>t. (t, Some (c t))) (ts @ [t]))"
  have step: "?r' = (if c t \<le> snd ?r then (Some t, c t) else ?r)"
    by (simp add: pickMinimum_def)
  from snoc have i1: "snd ?r \<le> M" and i2: "\<forall>u\<in>set ts. snd ?r \<le> c u"
    and i3: "(\<forall>u\<in>set ts. M < c u) \<longrightarrow> ?r = (None, M)"
    and i4: "(\<exists>u\<in>set ts. c u \<le> M) \<longrightarrow>
      (\<exists>i<length ts. ?r = (Some (ts ! i), c (ts ! i)) \<and> (\<forall>j<length ts. i < j \<longrightarrow> c (ts ! i) < c (ts ! j)))"
    by blast+
  show ?case
  proof (cases "c t \<le> snd ?r")
    case True
    then have r': "?r' = (Some t, c t)" using step by simp
    have a: "snd ?r' \<le> M" using r' True i1 by simp
    have b: "\<forall>u\<in>set (ts @ [t]). snd ?r' \<le> c u" using r' True i2 by auto
    have c3: "(\<forall>u\<in>set (ts @ [t]). M < c u) \<longrightarrow> ?r' = (None, M)" using True i1 by auto
    have "length ts < length (ts @ [t]) \<and> ?r' = (Some ((ts @ [t]) ! length ts), c ((ts @ [t]) ! length ts)) \<and>
          (\<forall>j<length (ts @ [t]). length ts < j \<longrightarrow> c ((ts @ [t]) ! length ts) < c ((ts @ [t]) ! j))"
      using r' by simp
    then have d: "\<exists>i<length (ts @ [t]). ?r' = (Some ((ts @ [t]) ! i), c ((ts @ [t]) ! i)) \<and>
          (\<forall>j<length (ts @ [t]). i < j \<longrightarrow> c ((ts @ [t]) ! i) < c ((ts @ [t]) ! j))" by blast
    from a b c3 d show ?thesis by blast
  next
    case False
    then have r': "?r' = ?r" using step by simp
    have a: "snd ?r' \<le> M" using r' i1 by simp
    have b: "\<forall>u\<in>set (ts @ [t]). snd ?r' \<le> c u" using r' False i2 by auto
    have c3: "(\<forall>u\<in>set (ts @ [t]). M < c u) \<longrightarrow> ?r' = (None, M)"
    proof
      assume "\<forall>u\<in>set (ts @ [t]). M < c u"
      then have "\<forall>u\<in>set ts. M < c u" by simp
      with i3 have "?r = (None, M)" by blast
      with r' show "?r' = (None, M)" by (rule trans)
    qed
    have d: "(\<exists>u\<in>set (ts @ [t]). c u \<le> M) \<longrightarrow> (\<exists>i<length (ts @ [t]). ?r' = (Some ((ts @ [t]) ! i), c ((ts @ [t]) ! i)) \<and>
          (\<forall>j<length (ts @ [t]). i < j \<longrightarrow> c ((ts @ [t]) ! i) < c ((ts @ [t]) ! j)))"
    proof
      assume ex: "\<exists>u\<in>set (ts @ [t]). c u \<le> M"
      have "\<exists>u\<in>set ts. c u \<le> M"
      proof (rule ccontr)
        assume "\<not> (\<exists>u\<in>set ts. c u \<le> M)"
        then have "\<forall>u\<in>set ts. M < c u" by auto
        with i3 have "?r = (None, M)" by simp
        then have "M < c t" using False by simp
        with ex \<open>\<forall>u\<in>set ts. M < c u\<close> show False by auto
      qed
      with i4 obtain i where il: "i < length ts" and ir: "?r = (Some (ts ! i), c (ts ! i))"
        and ij: "\<forall>j<length ts. i < j \<longrightarrow> c (ts ! i) < c (ts ! j)" by blast
      have lt: "c (ts ! i) < c t" using False ir by simp
      have "i < length (ts @ [t]) \<and> ?r' = (Some ((ts @ [t]) ! i), c ((ts @ [t]) ! i)) \<and>
          (\<forall>j<length (ts @ [t]). i < j \<longrightarrow> c ((ts @ [t]) ! i) < c ((ts @ [t]) ! j))"
      proof (intro conjI allI impI)
        show "i < length (ts @ [t])" using il by simp
        show "?r' = (Some ((ts @ [t]) ! i), c ((ts @ [t]) ! i))" using r' ir il by (simp add: nth_append)
        fix j assume "j < length (ts @ [t])" and "i < j"
        then show "c ((ts @ [t]) ! i) < c ((ts @ [t]) ! j)"
          using il ij lt by (cases "j < length ts") (auto simp: nth_append)
      qed
      then show "\<exists>i<length (ts @ [t]). ?r' = (Some ((ts @ [t]) ! i), c ((ts @ [t]) ! i)) \<and>
          (\<forall>j<length (ts @ [t]). i < j \<longrightarrow> c ((ts @ [t]) ! i) < c ((ts @ [t]) ! j))" by blast
    qed
    from a b c3 d show ?thesis by blast
  qed
qed

lemma livingMembers_le: "livingMembers ps t \<le> int (length ps)"
  by (simp add: livingMembers_def)

lemma chooseTeam_last_minimum:
  assumes t: "teams (rules g) = Some ts" and d: "distinct ts" and n: "ts \<noteq> []"
    and s: "int (length (players g)) \<le> MAX_SAFE_INTEGER"
  shows "\<exists>i<length ts. chooseTeam g = Inr (Some (ts ! i)) \<and>
           (\<forall>j<length ts. livingMembers (players g) (ts ! i) \<le> livingMembers (players g) (ts ! j)) \<and>
           (\<forall>j<length ts. i < j \<longrightarrow> livingMembers (players g) (ts ! i) < livingMembers (players g) (ts ! j))"
proof -
  let ?c = "livingMembers (players g)"
  let ?A = "map (\<lambda>t. (t, Some (?c t))) ts"
  from teamUserCount_table [OF d, of "players g"] obtain extra where
    f: "foldl countPlayer (initCounts ts) (players g) = ?A @ extra"
    and e: "\<forall>kv\<in>set extra. fst kv \<notin> set ts \<and> snd kv = None" by blast
  have "foldl pickMinimum (None, MAX_SAFE_INTEGER) (?A @ extra) = foldl pickMinimum (None, MAX_SAFE_INTEGER) ?A"
    using e by (simp add: pickMinimum_none)
  then have ch: "chooseTeam g = Inr (fst (foldl pickMinimum (None, MAX_SAFE_INTEGER) ?A))"
    using t f by (simp add: chooseTeam_def)
  have "hd ts \<in> set ts" using n by simp
  moreover have "?c (hd ts) \<le> MAX_SAFE_INTEGER" using livingMembers_le [of "players g" "hd ts"] s by simp
  ultimately have ex: "\<exists>t\<in>set ts. ?c t \<le> MAX_SAFE_INTEGER" by blast
  from pickMinimum_table [of MAX_SAFE_INTEGER ?c ts] ex obtain i where il: "i < length ts"
    and r: "foldl pickMinimum (None, MAX_SAFE_INTEGER) ?A = (Some (ts ! i), ?c (ts ! i))"
    and ij: "\<forall>j<length ts. i < j \<longrightarrow> ?c (ts ! i) < ?c (ts ! j)"
    and mn: "\<forall>t\<in>set ts. snd (foldl pickMinimum (None, MAX_SAFE_INTEGER) ?A) \<le> ?c t" by blast
  have "\<forall>j<length ts. ?c (ts ! i) \<le> ?c (ts ! j)" using mn r by simp
  with il ch r ij show ?thesis by auto
qed

lemma join_team:
  "join env uid h pts c st g = (Inr p, g') \<Longrightarrow> joinTeam g st = Inr (team p)"
  by (auto simp: join_def Let_def split: if_splits option.splits sum.splits)

subsection \<open>Teams on the rosters of a reachable match\<close>

lemma roster_get_mem: "roster_get uid ps = Some p \<Longrightarrow> p \<in> set ps"
  by (auto simp: roster_get_def find_Some_iff)

lemma roster_set_subset: "set (roster_set p ps) \<subseteq> insert p (set ps)"
  by (auto simp: roster_set_def)

lemma roster_delete_subset: "set (roster_delete uid ps) \<subseteq> set ps"
  by (auto simp: roster_delete_def)

lemma map_of_mapSet: "map_of (mapSet k v m) = (map_of m)(k \<mapsto> v)"
  by (induction m) auto

lemma map_of_initCounts_fold:
  "map_of (foldl (\<lambda>m t. mapSet t (Some 0) m) m ts) t =
     (if t \<in> set ts then Some (Some 0) else map_of m t)"
  by (induction ts arbitrary: m) (auto simp: map_of_mapSet)

lemma countPlayer_counted:
  assumes "map_of m t = Some (Some n)" and "n \<le> k"
  shows "\<exists>n'. map_of (countPlayer m p) t = Some (Some n') \<and> n' \<le> k + 1"
proof (cases "team p")
  case None
  then show ?thesis using assms by (auto simp: countPlayer_def)
next
  case (Some t')
  show ?thesis
  proof (cases "t' = t")
    case True
    then show ?thesis using assms Some by (simp add: countPlayer_def map_of_mapSet)
  next
    case False
    then show ?thesis using assms Some by (auto simp: countPlayer_def map_of_mapSet)
  qed
qed

lemma foldl_countPlayer_counted:
  "map_of m t = Some (Some n) \<Longrightarrow> n \<le> k \<Longrightarrow>
   \<exists>n'. map_of (foldl countPlayer m ps) t = Some (Some n') \<and> n' \<le> k + int (length ps)"
proof (induction ps arbitrary: m n k)
  case Nil
  then show ?case by simp
next
  case (Cons p ps)
  from countPlayer_counted [OF Cons.prems, of p] obtain n' where
    a: "map_of (countPlayer m p) t = Some (Some n')" and b: "n' \<le> k + 1" by blast
  from Cons.IH [OF a b] show ?case by (auto simp: algebra_simps)
qed

lemma pickMinimum_cases:
  "pickMinimum acc entry = acc \<or> (\<exists>c. snd entry = Some c \<and> c \<le> snd acc \<and> pickMinimum acc entry = (Some (fst entry), c))"
  by (auto simp: pickMinimum_def split: option.splits)

lemma pickMinimum_keeps_some:
  "fst acc \<noteq> None \<Longrightarrow> fst (foldl pickMinimum acc m) \<noteq> None"
proof (induction m arbitrary: acc)
  case Nil
  then show ?case by simp
next
  case (Cons x m)
  have "fst (pickMinimum acc x) \<noteq> None"
    using pickMinimum_cases [of acc x] Cons.prems by auto
  from Cons.IH [OF this] show ?case by simp
qed

lemma pickMinimum_finds:
  "(k, Some c) \<in> set m \<Longrightarrow> c \<le> snd acc \<Longrightarrow> fst (foldl pickMinimum acc m) \<noteq> None"
proof (induction m arbitrary: acc)
  case Nil
  then show ?case by simp
next
  case (Cons x m)
  show ?case
  proof (cases "pickMinimum acc x = acc")
    case True
    show ?thesis
    proof (cases "x = (k, Some c)")
      case xk: True
      then have "pickMinimum acc x = (Some k, c)" using Cons.prems(2) by (simp add: pickMinimum_def)
      then have "fst (pickMinimum acc x) \<noteq> None" by simp
      from pickMinimum_keeps_some [OF this] show ?thesis by simp
    next
      case False
      then have "(k, Some c) \<in> set m" using Cons.prems(1) by simp
      from Cons.IH [OF this Cons.prems(2)] True show ?thesis by simp
    qed
  next
    case False
    then have "fst (pickMinimum acc x) \<noteq> None" using pickMinimum_cases [of acc x] by auto
    from pickMinimum_keeps_some [OF this] show ?thesis by simp
  qed
qed

lemma chooseTeam_some:
  assumes t: "teams (rules g) = Some ts" and n: "ts \<noteq> []"
    and s: "int (length (players g)) \<le> MAX_SAFE_INTEGER"
  shows "\<exists>tm. chooseTeam g = Inr (Some tm)"
proof -
  let ?m = "foldl countPlayer (initCounts ts) (players g)"
  have "hd ts \<in> set ts" using n by simp
  then have "map_of (initCounts ts) (hd ts) = Some (Some 0)"
    by (simp add: initCounts_def map_of_initCounts_fold)
  from foldl_countPlayer_counted [OF this, of 0 "players g"]
  obtain c where c: "map_of ?m (hd ts) = Some (Some c)" and le: "c \<le> int (length (players g))" by auto
  from c have "(hd ts, Some c) \<in> set ?m" by (rule map_of_SomeD)
  moreover have "c \<le> snd (None :: Team option, MAX_SAFE_INTEGER)" using le s by simp
  ultimately have "fst (foldl pickMinimum (None, MAX_SAFE_INTEGER) ?m) \<noteq> None"
    by (rule pickMinimum_finds)
  then show ?thesis using t by (auto simp: chooseTeam_def)
qed

lemma joinTeam_uniform:
  assumes u: "teamsUniform g" and s: "int (length (players g)) \<le> MAX_SAFE_INTEGER"
    and j: "joinTeam g st = Inr tm"
  shows "(teams (rules g) = None \<longrightarrow> tm = None) \<and> (teams (rules g) \<noteq> None \<longrightarrow> tm \<noteq> None)"
proof (cases "teams (rules g)")
  case None
  then show ?thesis using j by (simp add: joinTeam_def)
next
  case (Some ts)
  then have n: "ts \<noteq> []" using u by (simp add: teamsUniform_def)
  show ?thesis
  proof (cases "storedTeamOf ts st")
    case None
    then have "chooseTeam g = Inr tm" using j Some by (simp add: joinTeam_def)
    with chooseTeam_some [OF Some n s] show ?thesis using Some by auto
  next
    case st: (Some t')
    have "joinTeam g st = Inr (Some t')" using Some st by (simp add: joinTeam_def)
    with j have "tm = Some t'" by simp
    then show ?thesis using Some by simp
  qed
qed

lemma join_cases:
  "snd (join env uid h pts c st g) = g \<or>
   (\<exists>p. joinTeam g st = Inr (team p) \<and>
        fst (join env uid h pts c st g) = Inr p \<and>
        players (snd (join env uid h pts c st g)) = roster_set p (players g) \<and>
        deadPlayers (snd (join env uid h pts c st g)) = deadPlayers g \<and>
        rules (snd (join env uid h pts c st g)) = rules g)"
  by (auto simp: join_def Let_def split: option.splits sum.splits)

lemma teamsUniform_step:
  assumes u: "teamsUniform g" and r: "rules g' = rules g"
    and s: "\<forall>q\<in>set (players g') \<union> set (deadPlayers g').
              \<exists>p\<in>set (players g) \<union> set (deadPlayers g). team q = team p"
  shows "teamsUniform g'"
proof (cases "teams (rules g)")
  case None
  then have a: "\<forall>p\<in>set (players g) \<union> set (deadPlayers g). team p = None"
    using u by (simp add: teamsUniform_def)
  have "\<forall>q\<in>set (players g') \<union> set (deadPlayers g'). team q = None"
  proof
    fix q assume "q \<in> set (players g') \<union> set (deadPlayers g')"
    with s obtain p where "p \<in> set (players g) \<union> set (deadPlayers g)" and "team q = team p" by blast
    with a show "team q = None" by simp
  qed
  then show ?thesis using None r by (simp add: teamsUniform_def)
next
  case (Some ts)
  then have n: "ts \<noteq> []" and a: "\<forall>p\<in>set (players g) \<union> set (deadPlayers g). team p \<noteq> None"
    using u by (simp_all add: teamsUniform_def)
  have "\<forall>q\<in>set (players g') \<union> set (deadPlayers g'). team q \<noteq> None"
  proof
    fix q assume "q \<in> set (players g') \<union> set (deadPlayers g')"
    with s obtain p where "p \<in> set (players g) \<union> set (deadPlayers g)" and "team q = team p" by blast
    with a show "team q \<noteq> None" by simp
  qed
  then show ?thesis using Some r n by (simp add: teamsUniform_def)
qed

lemma join_uniform:
  assumes u: "teamsUniform g" and s: "int (length (players g)) \<le> MAX_SAFE_INTEGER"
  shows "teamsUniform (snd (join env uid h pts c st g))"
proof -
  let ?g' = "snd (join env uid h pts c st g)"
  from join_cases [of env uid h pts c st g] show ?thesis
  proof
    assume "?g' = g" then show ?thesis using u by simp
  next
    assume "\<exists>p. joinTeam g st = Inr (team p) \<and> fst (join env uid h pts c st g) = Inr p \<and>
        players ?g' = roster_set p (players g) \<and> deadPlayers ?g' = deadPlayers g \<and> rules ?g' = rules g"
    then obtain p where jt: "joinTeam g st = Inr (team p)"
      and pl: "players ?g' = roster_set p (players g)"
      and dp: "deadPlayers ?g' = deadPlayers g" and ru: "rules ?g' = rules g" by blast
    from joinTeam_uniform [OF u s jt]
    have tp: "(teams (rules g) = None \<longrightarrow> team p = None) \<and> (teams (rules g) \<noteq> None \<longrightarrow> team p \<noteq> None)" .
    have sub: "set (players ?g') \<subseteq> insert p (set (players g))"
      unfolding pl by (rule roster_set_subset)
    show ?thesis
    proof (cases "teams (rules g)")
      case None
      then have "\<forall>q\<in>set (players g) \<union> set (deadPlayers g). team q = None"
        using u by (simp add: teamsUniform_def)
      then have "\<forall>q\<in>set (players ?g') \<union> set (deadPlayers ?g'). team q = None"
        using sub dp tp None by auto
      then show ?thesis using None ru by (simp add: teamsUniform_def)
    next
      case (Some ts)
      then have n: "ts \<noteq> []" and a: "\<forall>q\<in>set (players g) \<union> set (deadPlayers g). team q \<noteq> None"
        using u by (simp_all add: teamsUniform_def)
      have "\<forall>q\<in>set (players ?g') \<union> set (deadPlayers ?g'). team q \<noteq> None"
        using sub dp tp Some a by auto
      then show ?thesis using Some ru n by (simp add: teamsUniform_def)
    qed
  qed
qed


lemma moveToCoord_rosters:
  "rules (snd (moveToCoord env uid c g)) = rules g \<and>
   deadPlayers (snd (moveToCoord env uid c g)) = deadPlayers g \<and>
   (\<forall>q\<in>set (players (snd (moveToCoord env uid c g))). \<exists>p\<in>set (players g). team q = team p)"
proof (cases "canMove env uid c g")
  case (Inl e)
  then have "snd (moveToCoord env uid c g) = g" by (simp add: moveToCoord_def)
  then show ?thesis by auto
next
  case (Inr result)
  show ?thesis
  proof (cases "roster_get uid (players g)")
    case None
    then have "snd (moveToCoord env uid c g) = g" using Inr by (simp add: moveToCoord_def)
    then show ?thesis by auto
  next
    case (Some p)
    have pm: "p \<in> set (players g)" using Some by (rule roster_get_mem)
    let ?p1 = "p\<lparr>points := points p - movePointsRequired result\<rparr>"
    let ?M = "snd (moveToCoord env uid c g)"
    have rd: "rules ?M = rules g \<and> deadPlayers ?M = deadPlayers g"
      using Inr Some by (simp add: moveToCoord_def Let_def split: option.splits)
    have pl: "players ?M = players g \<or> players ?M = roster_set ?p1 (players g) \<or>
              players ?M = roster_set (?p1\<lparr>coords := c\<rparr>) (roster_set ?p1 (players g))"
      using Inr Some by (simp add: moveToCoord_def Let_def split: option.splits)
    have a: "\<exists>p\<in>set (players g). team q = team p" if "q \<in> set (roster_set ?p1 (players g))" for q
    proof -
      from that roster_set_subset [of ?p1 "players g"] have "q = ?p1 \<or> q \<in> set (players g)" by blast
      then show ?thesis using pm by auto
    qed
    have b: "\<exists>p\<in>set (players g). team q = team p"
      if "q \<in> set (roster_set (?p1\<lparr>coords := c\<rparr>) (roster_set ?p1 (players g)))" for q
    proof -
      from that roster_set_subset [of "?p1\<lparr>coords := c\<rparr>" "roster_set ?p1 (players g)"]
      have "q = ?p1\<lparr>coords := c\<rparr> \<or> q \<in> set (roster_set ?p1 (players g))" by blast
      then show ?thesis using pm a by auto
    qed
    have "\<forall>q\<in>set (players ?M). \<exists>p\<in>set (players g). team q = team p"
    proof
      fix q assume q: "q \<in> set (players ?M)"
      from pl show "\<exists>p\<in>set (players g). team q = team p"
      proof (elim disjE)
        assume "players ?M = players g" with q show ?thesis by auto
      next
        assume "players ?M = roster_set ?p1 (players g)" with q a show ?thesis by simp
      next
        assume "players ?M = roster_set (?p1\<lparr>coords := c\<rparr>) (roster_set ?p1 (players g))"
        with q b show ?thesis by simp
      qed
    qed
    with rd show ?thesis by simp
  qed
qed

lemma moveToCoord_uniform:
  assumes "teamsUniform g"
  shows "teamsUniform (snd (moveToCoord env uid c g))"
proof (rule teamsUniform_step [OF assms])
  show "rules (snd (moveToCoord env uid c g)) = rules g"
    using moveToCoord_rosters [of env uid c g] by simp
  show "\<forall>q\<in>set (players (snd (moveToCoord env uid c g))) \<union> set (deadPlayers (snd (moveToCoord env uid c g))).
          \<exists>p\<in>set (players g) \<union> set (deadPlayers g). team q = team p"
    using moveToCoord_rosters [of env uid c g] by auto
qed

lemma handleGameTick_uniform:
  assumes "teamsUniform g"
  shows "teamsUniform (handleGameTick env g)"
proof (rule teamsUniform_step [OF assms])
  show "rules (handleGameTick env g) = rules g" by (simp add: handleGameTick_def)
  show "\<forall>q\<in>set (players (handleGameTick env g)) \<union> set (deadPlayers (handleGameTick env g)).
          \<exists>p\<in>set (players g) \<union> set (deadPlayers g). team q = team p"
    by (auto simp: handleGameTick_def playerTick_def)
qed

lemma cleanup_uniform:
  assumes "teamsUniform g"
  shows "teamsUniform (cleanup g)"
proof (rule teamsUniform_step [OF assms])
  show "rules (cleanup g) = rules g" by (simp add: cleanup_def)
  show "\<forall>q\<in>set (players (cleanup g)) \<union> set (deadPlayers (cleanup g)).
          \<exists>p\<in>set (players g) \<union> set (deadPlayers g). team q = team p"
    by (auto simp: cleanup_def)
qed

lemma killPlayer_rosters:
  "set (players (killPlayer p g)) \<subseteq> set (players g) \<and>
   set (deadPlayers (killPlayer p g)) \<subseteq> insert p (set (deadPlayers g)) \<and>
   rules (killPlayer p g) = rules g"
  using roster_set_subset [of p "deadPlayers g"] roster_delete_subset [of "userId p" "players g"]
  by (simp add: killPlayer_def)

lemma killPlayer_uniform:
  assumes "teamsUniform g" and "p \<in> set (players g) \<union> set (deadPlayers g)"
  shows "teamsUniform (killPlayer p g)"
proof (rule teamsUniform_step [OF assms(1)])
  show "rules (killPlayer p g) = rules g" using killPlayer_rosters [of p g] by simp
  show "\<forall>q\<in>set (players (killPlayer p g)) \<union> set (deadPlayers (killPlayer p g)).
          \<exists>p\<in>set (players g) \<union> set (deadPlayers g). team q = team p"
  proof
    fix q assume "q \<in> set (players (killPlayer p g)) \<union> set (deadPlayers (killPlayer p g))"
    with killPlayer_rosters [of p g] have "q = p \<or> q \<in> set (players g) \<union> set (deadPlayers g)" by blast
    then show "\<exists>p\<in>set (players g) \<union> set (deadPlayers g). team q = team p" using assms(2) by blast
  qed
qed

lemma roster_set_mem: "p \<in> set (roster_set p ps)"
  by (auto simp: roster_set_def roster_has_def roster_get_def find_None_iff)

lemma join_player_mem:
  "fst (join env uid h pts c st g) = Inr p \<Longrightarrow> p \<in> set (players (snd (join env uid h pts c st g)))"
  by (auto simp: join_def Let_def roster_set_mem split: if_splits option.splits sum.splits)

lemma loadRows_one_uniform:
  assumes u: "teamsUniform g" and s: "int (length (players g)) \<le> MAX_SAFE_INTEGER"
  shows "teamsUniform (loadRows env [row] g)"
proof (cases row)
  case (StoredPlayer uid cx cy h pts tm)
  obtain a b where j: "join env uid (Some h) (Some pts) (Some (Coordinate cx cy)) tm g = (a, b)"
    by (cases "join env uid (Some h) (Some pts) (Some (Coordinate cx cy)) tm g")
  have ub: "teamsUniform b" using join_uniform [OF u s, of env uid "Some h" "Some pts" "Some (Coordinate cx cy)" tm] j
    by simp
  have l: "loadRows env [row] g = (case a of Inl e \<Rightarrow> b | Inr p \<Rightarrow> if h = 0 then killPlayer p b else b)"
    by (simp add: StoredPlayer j split: sum.splits)
  show ?thesis
  proof (cases a)
    case (Inl e)
    then show ?thesis using ub l by simp
  next
    case (Inr p)
    have "p \<in> set (players b)"
      using join_player_mem [of env uid "Some h" "Some pts" "Some (Coordinate cx cy)" tm g p] j Inr by simp
    then have "teamsUniform (killPlayer p b)" using killPlayer_uniform [OF ub] by simp
    then show ?thesis using ub l Inr by simp
  qed
qed

lemma teamsUniform_iff:
  "teamsUniform g \<longleftrightarrow>
     (\<forall>ts. teams (rules g) = Some ts \<longrightarrow> ts \<noteq> []) \<and>
     (\<forall>p\<in>set (players g) \<union> set (deadPlayers g). (team p = None) = (teams (rules g) = None))"
  by (cases "teams (rules g)") (auto simp: teamsUniform_def)

lemma currentPlayer_mem:
  "currentPlayer q g = q \<or> currentPlayer q g \<in> set (players g) \<union> set (deadPlayers g)"
  by (auto simp: currentPlayer_def dest: roster_get_mem split: option.splits)

lemma storePlayer_rosters:
  "set (players (storePlayer p g)) \<subseteq> insert p (set (players g)) \<and>
   set (deadPlayers (storePlayer p g)) \<subseteq> insert p (set (deadPlayers g)) \<and>
   rules (storePlayer p g) = rules g"
  using roster_set_subset [of p "players g"] roster_set_subset [of p "deadPlayers g"]
  by (auto simp: storePlayer_def)

lemma applyShotEffect_rules: "rules (applyShotEffect a k g e) = rules g"
  by (simp add: applyShotEffect_def Let_def storePlayer_def killPlayer_def)

lemma foldl_applyShotEffect_rules: "rules (foldl (applyShotEffect a k) g es) = rules g"
  by (induction es arbitrary: g) (simp_all add: applyShotEffect_rules)

lemma applyShotEffect_teams:
  assumes g: "\<forall>p\<in>set (players g) \<union> set (deadPlayers g). Q (team p)" and e: "Q (team (player e))"
  shows "\<forall>p\<in>set (players (applyShotEffect a k g e)) \<union> set (deadPlayers (applyShotEffect a k g e)). Q (team p)"
proof -
  let ?d = "receiveDamage (damageTaken e) (currentPlayer (player e) g)"
  have "Q (team (currentPlayer (player e) g))"
    using currentPlayer_mem [of "player e" g] g e by auto
  then have d: "Q (team ?d)" by (simp add: receiveDamage_def)
  let ?g1 = "storePlayer ?d g"
  have g1: "\<forall>p\<in>set (players ?g1) \<union> set (deadPlayers ?g1). Q (team p)"
  proof
    fix p assume "p \<in> set (players ?g1) \<union> set (deadPlayers ?g1)"
    with storePlayer_rosters [of ?d g] have "p = ?d \<or> p \<in> set (players g) \<union> set (deadPlayers g)" by blast
    then show "Q (team p)" using d g by blast
  qed
  let ?g2 = "killPlayer ?d ?g1"
  have g2: "\<forall>p\<in>set (players ?g2) \<union> set (deadPlayers ?g2). Q (team p)"
  proof
    fix p assume "p \<in> set (players ?g2) \<union> set (deadPlayers ?g2)"
    with killPlayer_rosters [of ?d ?g1] have "p = ?d \<or> p \<in> set (players ?g1) \<union> set (deadPlayers ?g1)" by blast
    then show "Q (team p)" using d g1 by blast
  qed
  show ?thesis using g1 g2 by (simp add: applyShotEffect_def Let_def)
qed

lemma foldl_applyShotEffect_teams:
  "\<forall>p\<in>set (players g) \<union> set (deadPlayers g). Q (team p) \<Longrightarrow> \<forall>e\<in>set es. Q (team (player e)) \<Longrightarrow>
   \<forall>p\<in>set (players (foldl (applyShotEffect a k) g es)) \<union>
        set (deadPlayers (foldl (applyShotEffect a k) g es)). Q (team p)"
proof (induction es arbitrary: g)
  case Nil
  then show ?case by simp
next
  case (Cons e es)
  have "\<forall>p\<in>set (players (applyShotEffect a k g e)) \<union> set (deadPlayers (applyShotEffect a k g e)). Q (team p)"
    using Cons.prems by (intro applyShotEffect_teams) simp_all
  from Cons.IH [OF this] Cons.prems(2) show ?case by simp
qed

lemma attack_team: "team (snd (attack roll c r k p)) = team p"
  by (simp add: attack_def Let_def)

lemma canAttack_entries_living:
  assumes "canAttack env uid c g = Inr result" and "e \<in> set (affectedPlayers result)"
  shows "player e \<in> set (players g)"
proof -
  from assms(1) obtain p where p: "roster_get uid (players g) = Some p"
    by (auto simp: canAttack_def split: if_splits option.splits)
  have "result = attackTiles env g p (isKamikazeShot p c)
                    (getTilesInRadius env (gameMap g) c (blastRadius p c) False)"
    using assms(1) p by (rule canAttack_result)
  with assms(2) have "roster_get (userId (player e)) (players g) = Some (player e)"
    unfolding attackTiles_def using foldl_attackTile_entries by fastforce
  then show ?thesis by (rule roster_get_mem)
qed

lemma doAttack_teams:
  assumes g: "\<forall>p\<in>set (players g) \<union> set (deadPlayers g). Q (team p)"
  shows "rules (snd (doAttack env roll uid c g)) = rules g \<and>
         (\<forall>p\<in>set (players (snd (doAttack env roll uid c g))) \<union>
              set (deadPlayers (snd (doAttack env roll uid c g))). Q (team p))"
proof (cases "canAttack env uid c g")
  case (Inl e)
  then show ?thesis using g by (simp add: doAttack_def)
next
  case (Inr result)
  show ?thesis
  proof (cases "roster_get uid (players g)")
    case None
    then show ?thesis using g Inr by (simp add: doAttack_def)
  next
    case (Some attacker)
    have am: "attacker \<in> set (players g)" using Some by (rule roster_get_mem)
    let ?k = "isKamikazeShot attacker c"
    let ?shot = "attack roll c result ?k attacker"
    let ?g1 = "g\<lparr>logMessages := logMessages g @
                 [if ?k then LogKamikazed uid (length (affectedPlayers result)) (totalDamage result)
                  else LogFired uid (length (affectedPlayers result)) (totalDamage result)
                         (pointsPerShot attacker)]\<rparr>"
    let ?g2 = "?g1\<lparr>players := roster_set (snd ?shot) (players ?g1)\<rparr>"
    let ?g3 = "foldl (applyShotEffect (snd ?shot) ?k) ?g2 (affectedPlayers result)"
    have q2: "\<forall>p\<in>set (players ?g2) \<union> set (deadPlayers ?g2). Q (team p)"
    proof
      fix p assume "p \<in> set (players ?g2) \<union> set (deadPlayers ?g2)"
      then have "p = snd ?shot \<or> p \<in> set (players g) \<union> set (deadPlayers g)"
        using roster_set_subset [of "snd ?shot" "players g"] by auto
      then show "Q (team p)" using g am by (auto simp: attack_team)
    qed
    have qe: "\<forall>e\<in>set (affectedPlayers result). Q (team (player e))"
      using canAttack_entries_living [OF Inr] g by blast
    have q3: "\<forall>p\<in>set (players ?g3) \<union> set (deadPlayers ?g3). Q (team p)"
      using q2 qe by (rule foldl_applyShotEffect_teams)
    have r3: "rules ?g3 = rules g" by (simp add: foldl_applyShotEffect_rules)
    have d: "snd (doAttack env roll uid c g) = ?g2 \<or> snd (doAttack env roll uid c g) = ?g3 \<or>
             snd (doAttack env roll uid c g) = cleanup (?g3\<lparr>ended := True\<rparr>)"
      using Inr Some by (simp add: doAttack_def Let_def)
    then show ?thesis
    proof (elim disjE)
      assume "snd (doAttack env roll uid c g) = ?g2"
      then show ?thesis using q2 by simp
    next
      assume "snd (doAttack env roll uid c g) = ?g3"
      then show ?thesis using q3 r3 by simp
    next
      assume "snd (doAttack env roll uid c g) = cleanup (?g3\<lparr>ended := True\<rparr>)"
      then show ?thesis using q3 r3 by (simp add: cleanup_def)
    qed
  qed
qed

lemma doAttack_uniform:
  assumes "teamsUniform g"
  shows "teamsUniform (snd (doAttack env roll uid c g))"
proof -
  let ?Q = "\<lambda>t. (t = None) = (teams (rules g) = None)"
  have "\<forall>p\<in>set (players g) \<union> set (deadPlayers g). ?Q (team p)"
    using assms by (simp add: teamsUniform_iff)
  from doAttack_teams [of g ?Q env roll uid c, OF this] assms
  show ?thesis by (simp add: teamsUniform_iff)
qed

lemma newGame_uniform: "newGame env tiles r = Inr g \<Longrightarrow> teamsUniform g"
  by (auto simp: newGame_def teamsUniform_def split: if_splits option.splits)

lemma reachable_uniform: "reachable env g \<Longrightarrow> teamsUniform g"
proof (induction rule: reachable.induct)
  case (constructed tiles r g)
  then show ?case by (rule newGame_uniform)
next
  case (joined g uid hp0 points0 c storedTeam)
  then show ?case by (simp add: join_uniform)
next
  case (moved g uid c)
  then show ?case by (simp add: moveToCoord_uniform)
next
  case (attacked g roll uid c)
  then show ?case by (simp add: doAttack_uniform)
next
  case (ticked g)
  then show ?case by (simp add: handleGameTick_uniform)
next
  case (cleaned g)
  then show ?case by (simp add: cleanup_uniform)
next
  case (restored g row)
  then show ?case by (simp add: loadRows_one_uniform)
qed

subsection \<open>Kamikaze\<close>

lemma kamikaze_preview:
  assumes r: "canAttack env uid c g = Inr result"
    and p: "roster_get uid (players g) = Some p"
    and k: "isKamikazeShot p c"
  shows "result = attackTiles env g p True (getTilesInRadius env (gameMap g) c 2 False) \<and>
         (\<forall>e\<in>set (affectedPlayers result).
            (userId (player e) = uid \<longrightarrow> damageTaken e = hp p \<and> newHP e = 0) \<and>
            (userId (player e) \<noteq> uid \<longrightarrow>
               \<not> isTeammate (player e) p \<and>
               damageTaken e = min (hp (player e)) (DEFAULT_STARTING_HP env div 2) \<and>
               newHP e = max (hp (player e) - DEFAULT_STARTING_HP env div 2) 0)) \<and>
         (\<forall>tile\<in>set (getTilesInRadius env (gameMap g) c 2 False). \<forall>tp.
            map_option (\<lambda>occ. roster_get occ (players g)) (occupied tile) = Some (Some tp) \<and>
            \<not> isTeammate tp p \<longrightarrow>
            (\<exists>e\<in>set (affectedPlayers result). player e = tp))"
proof -
  have res: "result = attackTiles env g p True (getTilesInRadius env (gameMap g) c 2 False)"
    using canAttack_result [OF r p] k by (simp add: blastRadius_def)
  have pid: "userId p = uid" using p by (rule roster_get_userId)
  have b: "\<forall>e\<in>set (affectedPlayers result).
            (userId (player e) = uid \<longrightarrow> damageTaken e = hp p \<and> newHP e = 0) \<and>
            (userId (player e) \<noteq> uid \<longrightarrow>
               \<not> isTeammate (player e) p \<and>
               damageTaken e = min (hp (player e)) (DEFAULT_STARTING_HP env div 2) \<and>
               newHP e = max (hp (player e) - DEFAULT_STARTING_HP env div 2) 0)"
  proof
    fix e assume "e \<in> set (affectedPlayers result)"
    then have ok: "roster_get (userId (player e)) (players g) = Some (player e) \<and>
        \<not> isTeammate (player e) p \<and> oldHP e = hp (player e) \<and>
        newHP e = max (hp (player e) - shotDamage env True p (player e)) 0 \<and>
        damageTaken e = hp (player e) - newHP e"
      unfolding res attackTiles_def using foldl_attackTile_entries by fastforce
    show "(userId (player e) = uid \<longrightarrow> damageTaken e = hp p \<and> newHP e = 0) \<and>
            (userId (player e) \<noteq> uid \<longrightarrow>
               \<not> isTeammate (player e) p \<and>
               damageTaken e = min (hp (player e)) (DEFAULT_STARTING_HP env div 2) \<and>
               newHP e = max (hp (player e) - DEFAULT_STARTING_HP env div 2) 0)"
    proof (cases "userId (player e) = uid")
      case True
      then have "player e = p" using ok p by simp
      then show ?thesis using ok True pid by (simp add: shotDamage_def)
    next
      case False
      then show ?thesis using ok pid by (auto simp: shotDamage_def)
    qed
  qed
  have c: "\<forall>tile\<in>set (getTilesInRadius env (gameMap g) c 2 False). \<forall>tp.
            map_option (\<lambda>occ. roster_get occ (players g)) (occupied tile) = Some (Some tp) \<and>
            \<not> isTeammate tp p \<longrightarrow>
            (\<exists>e\<in>set (affectedPlayers result). player e = tp)"
  proof (intro ballI allI impI)
    fix tile tp
    assume t: "tile \<in> set (getTilesInRadius env (gameMap g) c 2 False)"
      and h: "map_option (\<lambda>occ. roster_get occ (players g)) (occupied tile) = Some (Some tp) \<and> \<not> isTeammate tp p"
    then obtain occ where o: "occupied tile = Some occ" and g: "roster_get occ (players g) = Some tp"
      by auto
    from foldl_attackTile_complete [OF t o g] h
    show "\<exists>e\<in>set (affectedPlayers result). player e = tp"
      unfolding res attackTiles_def by simp
  qed
  from res b c show ?thesis by simp
qed

lemma find_map_replace_same:
  "find (\<lambda>p. userId p = userId q) ps \<noteq> None \<Longrightarrow>
   find (\<lambda>p. userId p = userId q) (map (\<lambda>r. if userId r = userId q then q else r) ps) = Some q"
  by (induction ps) auto

lemma find_snoc_same:
  "find (\<lambda>p. userId p = userId q) ps = None \<Longrightarrow> find (\<lambda>p. userId p = userId q) (ps @ [q]) = Some q"
  by (induction ps) auto

lemma roster_get_set_same: "roster_get (userId q) (roster_set q ps) = Some q"
  by (simp add: roster_get_def roster_set_def roster_has_def find_map_replace_same find_snoc_same)

lemma roster_get_delete_same: "roster_get uid (roster_delete uid ps) = None"
  by (simp add: roster_get_def roster_delete_def find_None_iff)

lemma roster_has_set_same: "roster_has (userId q) (roster_set q ps)"
  by (simp add: roster_has_def roster_get_set_same)

lemma applyShotEffect_dead_other:
  assumes "userId (player e) \<noteq> uid"
  shows "roster_get uid (deadPlayers (applyShotEffect a k g e)) = roster_get uid (deadPlayers g)"
proof -
  let ?d = "receiveDamage (damageTaken e) (currentPlayer (player e) g)"
  have d: "userId ?d \<noteq> uid" using assms by (simp add: receiveDamage_def currentPlayer_userId)
  have s: "roster_get uid (deadPlayers (storePlayer ?d g)) = roster_get uid (deadPlayers g)"
    using d by (simp add: storePlayer_def roster_get_set_other)
  have k: "roster_get uid (deadPlayers (killPlayer ?d (storePlayer ?d g))) = roster_get uid (deadPlayers g)"
    using d s by (simp add: killPlayer_def roster_get_set_other)
  show ?thesis using s k by (simp add: applyShotEffect_def Let_def)
qed

lemma eliminated_stays:
  assumes n: "roster_get uid (players g) = None" and h: "roster_has uid (deadPlayers g)"
  shows "roster_get uid (players (applyShotEffect a k g e)) = None \<and>
         roster_has uid (deadPlayers (applyShotEffect a k g e))"
proof (cases "userId (player e) = uid")
  case False
  then show ?thesis
    using n h by (simp add: applyShotEffect_get_other applyShotEffect_dead_other roster_has_def)
next
  case True
  let ?d = "receiveDamage (damageTaken e) (currentPlayer (player e) g)"
  have d: "userId ?d = uid" using True by (simp add: receiveDamage_def currentPlayer_userId)
  let ?g1 = "storePlayer ?d g"
  have nh: "\<not> roster_has uid (players g)" using n by (simp add: roster_has_def)
  have p1: "players ?g1 = players g" using nh h d by (simp add: storePlayer_def)
  have d1: "deadPlayers ?g1 = roster_set ?d (deadPlayers g)" using nh h d by (simp add: storePlayer_def)
  have h1: "roster_has uid (deadPlayers ?g1)" using roster_has_set_same [of ?d "deadPlayers g"] d d1 by simp
  have n1: "roster_get uid (players ?g1) = None" using p1 n by simp
  let ?g2 = "killPlayer ?d ?g1"
  have n2: "roster_get uid (players ?g2) = None"
    using d by (simp add: killPlayer_def roster_get_delete_same)
  have h2: "roster_has uid (deadPlayers ?g2)"
    using roster_has_set_same [of ?d "deadPlayers ?g1"] d by (simp add: killPlayer_def)
  show ?thesis using n1 h1 n2 h2 by (simp add: applyShotEffect_def Let_def)
qed

lemma foldl_eliminated_stays:
  "roster_get uid (players g) = None \<Longrightarrow> roster_has uid (deadPlayers g) \<Longrightarrow>
   roster_get uid (players (foldl (applyShotEffect a k) g es)) = None \<and>
   roster_has uid (deadPlayers (foldl (applyShotEffect a k) g es))"
proof (induction es arbitrary: g)
  case Nil
  then show ?case by simp
next
  case (Cons e es)
  from eliminated_stays [OF Cons.prems, of a k e]
  have "roster_get uid (players (applyShotEffect a k g e)) = None"
    and "roster_has uid (deadPlayers (applyShotEffect a k g e))" by simp_all
  from Cons.IH [OF this] show ?case by simp
qed

lemma full_damage_eliminates:
  assumes e: "userId (player e) = uid" and dm: "damageTaken e = hp q"
    and q: "roster_get uid (players g) = Some q"
  shows "roster_get uid (players (applyShotEffect a k g e)) = None \<and>
         roster_has uid (deadPlayers (applyShotEffect a k g e))"
proof -
  have qid: "userId q = uid" using q by (rule roster_get_userId)
  have cp: "currentPlayer (player e) g = q" using e q by (simp add: currentPlayer_def)
  let ?d = "receiveDamage (damageTaken e) (currentPlayer (player e) g)"
  have d: "userId ?d = uid" and hd: "hp ?d = 0" using cp dm qid by (simp_all add: receiveDamage_def)
  let ?g1 = "storePlayer ?d g"
  let ?g2 = "killPlayer ?d ?g1"
  have n2: "roster_get uid (players ?g2) = None"
    using d by (simp add: killPlayer_def roster_get_delete_same)
  have h2: "roster_has uid (deadPlayers ?g2)"
    using roster_has_set_same [of ?d "deadPlayers ?g1"] d by (simp add: killPlayer_def)
  show ?thesis using n2 h2 hd by (simp add: applyShotEffect_def Let_def)
qed

lemma foldl_full_damage_eliminates:
  "roster_get uid (players g) = Some q \<Longrightarrow>
   \<forall>e\<in>set es. userId (player e) = uid \<longrightarrow> damageTaken e = hp q \<Longrightarrow>
   \<exists>e\<in>set es. userId (player e) = uid \<Longrightarrow>
   roster_get uid (players (foldl (applyShotEffect a k) g es)) = None \<and>
   roster_has uid (deadPlayers (foldl (applyShotEffect a k) g es))"
proof (induction es arbitrary: g)
  case Nil
  then show ?case by simp
next
  case (Cons e es)
  show ?case
  proof (cases "userId (player e) = uid")
    case True
    then have "damageTaken e = hp q" using Cons.prems(2) by simp
    from full_damage_eliminates [OF True this Cons.prems(1), of a k]
    have "roster_get uid (players (applyShotEffect a k g e)) = None"
      and "roster_has uid (deadPlayers (applyShotEffect a k g e))" by simp_all
    from foldl_eliminated_stays [OF this] show ?thesis by simp
  next
    case False
    then have g1: "roster_get uid (players (applyShotEffect a k g e)) = Some q"
      using Cons.prems(1) by (simp add: applyShotEffect_get_other)
    have a2: "\<forall>e\<in>set es. userId (player e) = uid \<longrightarrow> damageTaken e = hp q" using Cons.prems(2) by simp
    have a3: "\<exists>e\<in>set es. userId (player e) = uid" using Cons.prems(3) False by auto
    from Cons.IH [OF g1 a2 a3] show ?thesis by simp
  qed
qed

lemma attackTile_killed_keeps:
  "q \<in> set (killedPlayers acc) \<Longrightarrow> q \<in> set (killedPlayers (attackTile env g p k acc tile))"
  by (simp add: attackTile_def Let_def split: option.splits)

lemma foldl_attackTile_killed_keeps:
  "q \<in> set (killedPlayers acc) \<Longrightarrow> q \<in> set (killedPlayers (foldl (attackTile env g p k) acc tiles))"
  by (induction tiles arbitrary: acc) (simp_all add: attackTile_killed_keeps)

lemma attackTile_kills:
  "occupied tile = Some occ \<Longrightarrow> roster_get occ (players g) = Some tp \<Longrightarrow> \<not> isTeammate tp p \<Longrightarrow>
   max (hp tp - shotDamage env k p tp) 0 = 0 \<Longrightarrow>
   tp \<in> set (killedPlayers (attackTile env g p k acc tile))"
  by (simp add: attackTile_def Let_def)

lemma foldl_attackTile_kills:
  "tile \<in> set tiles \<Longrightarrow> occupied tile = Some occ \<Longrightarrow> roster_get occ (players g) = Some tp \<Longrightarrow>
   \<not> isTeammate tp p \<Longrightarrow> max (hp tp - shotDamage env k p tp) 0 = 0 \<Longrightarrow>
   tp \<in> set (killedPlayers (foldl (attackTile env g p k) acc tiles))"
proof (induction tiles arbitrary: acc)
  case Nil
  then show ?case by simp
next
  case (Cons t rest)
  show ?case
  proof (cases "t = tile")
    case True
    have "tp \<in> set (killedPlayers (attackTile env g p k acc t))"
      using True attackTile_kills [OF Cons.prems(2,3,4,5)] by simp
    then show ?thesis by (simp add: foldl_attackTile_killed_keeps)
  next
    case False
    then have "tile \<in> set rest" using Cons.prems(1) by simp
    from Cons.IH [OF this Cons.prems(2,3,4,5)] show ?thesis by simp
  qed
qed

lemma kamikaze_self_hit:
  assumes r: "canAttack env uid c g = Inr result"
    and p: "roster_get uid (players g) = Some p"
    and k: "isKamikazeShot p c"
    and t: "tile \<in> set (getTilesInRadius env (gameMap g) c 2 False)"
    and o: "occupied tile = Some uid"
  shows "(\<exists>e\<in>set (affectedPlayers result).
            player e = p \<and> oldHP e = hp p \<and> damageTaken e = hp p \<and> newHP e = 0) \<and>
         p \<in> set (killedPlayers result) \<and>
         roster_get uid (players (snd (doAttack env roll uid c g))) = None \<and>
         roster_has uid (deadPlayers (snd (doAttack env roll uid c g)))"
proof -
  have res: "result = attackTiles env g p True (getTilesInRadius env (gameMap g) c 2 False)"
    using canAttack_result [OF r p] k by (simp add: blastRadius_def)
  have pid: "userId p = uid" using p by (rule roster_get_userId)
  have nt: "\<not> isTeammate p p" by (simp add: isTeammate_def)
  have sd: "max (hp p - shotDamage env True p p) 0 = 0" by (simp add: shotDamage_def)
  from foldl_attackTile_complete [OF t o p nt]
  obtain e where em: "e \<in> set (affectedPlayers result)" and ep: "player e = p"
    unfolding res attackTiles_def by blast
  from em have ok: "oldHP e = hp (player e) \<and>
        newHP e = max (hp (player e) - shotDamage env True p (player e)) 0 \<and>
        damageTaken e = hp (player e) - newHP e"
    unfolding res attackTiles_def using foldl_attackTile_entries by fastforce
  have e1: "player e = p \<and> oldHP e = hp p \<and> damageTaken e = hp p \<and> newHP e = 0"
    using ok ep sd by simp
  have a: "\<exists>e\<in>set (affectedPlayers result).
            player e = p \<and> oldHP e = hp p \<and> damageTaken e = hp p \<and> newHP e = 0"
    using em e1 by blast
  have b: "p \<in> set (killedPlayers result)"
    unfolding res attackTiles_def by (rule foldl_attackTile_kills [OF t o p nt sd])
  let ?shot = "attack roll c result True p"
  have hit: "fst ?shot = Hit" by (simp add: attack_def Let_def)
  have sid: "userId (snd ?shot) = uid" using pid by (simp add: attack_userId)
  have shp: "hp (snd ?shot) = hp p" by (simp add: attack_def Let_def)
  let ?g1 = "g\<lparr>logMessages := logMessages g @
               [LogKamikazed uid (length (affectedPlayers result)) (totalDamage result)]\<rparr>"
  let ?g2 = "?g1\<lparr>players := roster_set (snd ?shot) (players ?g1)\<rparr>"
  let ?g3 = "foldl (applyShotEffect (snd ?shot) True) ?g2 (affectedPlayers result)"
  have g2: "roster_get uid (players ?g2) = Some (snd ?shot)"
    using roster_get_set_same [of "snd ?shot" "players g"] sid by simp
  have all: "\<forall>e\<in>set (affectedPlayers result). userId (player e) = uid \<longrightarrow> damageTaken e = hp (snd ?shot)"
    using kamikaze_preview [OF r p k] shp by simp
  have ex: "\<exists>e\<in>set (affectedPlayers result). userId (player e) = uid" using em ep pid by blast
  have g3: "roster_get uid (players ?g3) = None \<and> roster_has uid (deadPlayers ?g3)"
    using g2 all ex by (rule foldl_full_damage_eliminates)
  have d: "snd (doAttack env roll uid c g) = ?g3 \<or>
           snd (doAttack env roll uid c g) = cleanup (?g3\<lparr>ended := True\<rparr>)"
    using r p k hit by (simp add: doAttack_def Let_def)
  have c: "roster_get uid (players (snd (doAttack env roll uid c g))) = None \<and>
           roster_has uid (deadPlayers (snd (doAttack env roll uid c g)))"
    using d g3 by (auto simp: cleanup_def)
  from a b c show ?thesis by simp
qed

section \<open>The claims\<close>

subsection \<open>The constructor's defaults\<close>

text \<open>
  Claim C10. For every partial rule set the constructor accepts (no team list, or one
  of at least two teams), the match is constructed, and a numeric rule for which the
  caller supplies 0 holds the global default constant of that rule; a nonzero number
  the caller supplies is the value of the rule.
\<close>

theorem constructor_zero_override_falls_back:
  assumes "teams_opt r = None \<or> (\<exists>ts. teams_opt r = Some ts \<and> 2 \<le> length ts)"
  shows "\<exists>g. newGame env tiles r = Inr g \<and>
     (millisecondsPerTick_opt r = Some 0 \<longrightarrow> millisecondsPerTick (rules g) = MILLISECONDS_PER_TICK env) \<and>
     (defaultStartingHp_opt r = Some 0 \<longrightarrow> defaultStartingHp (rules g) = DEFAULT_STARTING_HP env) \<and>
     (defaultStartingPoints_opt r = Some 0 \<longrightarrow> defaultStartingPoints (rules g) = DEFAULT_STARTING_POINTS env) \<and>
     (defaultPointsPerMove_opt r = Some 0 \<longrightarrow> defaultPointsPerMove (rules g) = POINTS_PER_MOVE env) \<and>
     (defaultPointsPerShot_opt r = Some 0 \<longrightarrow> defaultPointsPerShot (rules g) = POINTS_PER_SHOT env) \<and>
     (defaultPointsPerTick_opt r = Some 0 \<longrightarrow> defaultPointsPerTick (rules g) = POINTS_PER_TICK env) \<and>
     (defaultPointsPerKill_opt r = Some 0 \<longrightarrow> defaultPointsPerKill (rules g) = POINTS_PER_KILL env) \<and>
     (\<forall>n. n \<noteq> 0 \<longrightarrow>
        (millisecondsPerTick_opt r = Some n \<longrightarrow> millisecondsPerTick (rules g) = n) \<and>
        (defaultStartingHp_opt r = Some n \<longrightarrow> defaultStartingHp (rules g) = n) \<and>
        (defaultStartingPoints_opt r = Some n \<longrightarrow> defaultStartingPoints (rules g) = n) \<and>
        (defaultPointsPerMove_opt r = Some n \<longrightarrow> defaultPointsPerMove (rules g) = n) \<and>
        (defaultPointsPerShot_opt r = Some n \<longrightarrow> defaultPointsPerShot (rules g) = n) \<and>
        (defaultPointsPerTick_opt r = Some n \<longrightarrow> defaultPointsPerTick (rules g) = n) \<and>
        (defaultPointsPerKill_opt r = Some n \<longrightarrow> defaultPointsPerKill (rules g) = n))"
  using assms by (auto simp: newGame_def orDefault_def)

text \<open>Overrides of 0 for the tick interval and the starting points, and of 7 for the cost of a move.\<close>

theorem constructor_zero_override_falls_back_witness:
  "teams_opt (noRules\<lparr>millisecondsPerTick_opt := Some 0, defaultStartingPoints_opt := Some 0,
                      defaultPointsPerMove_opt := Some 7\<rparr>) = None \<and>
   (\<exists>g. newGame exampleEnv exampleTiles
          (noRules\<lparr>millisecondsPerTick_opt := Some 0, defaultStartingPoints_opt := Some 0,
                   defaultPointsPerMove_opt := Some 7\<rparr>) = Inr g \<and>
       millisecondsPerTick (rules g) = 60000 \<and> defaultStartingPoints (rules g) = 20 \<and>
       defaultPointsPerMove (rules g) = 7)"
  using constructor_zero_override_falls_back [of "noRules\<lparr>millisecondsPerTick_opt := Some 0, defaultStartingPoints_opt := Some 0,
                   defaultPointsPerMove_opt := Some 7\<rparr>" exampleEnv exampleTiles]
  by (simp add: noRules_def exampleEnv_def)

subsection \<open>Movement\<close>

text \<open>
  Claim C9. For every living player of a running match and every destination whose
  cost, as the tile map computes it, exceeds the player's points, \<open>moveToCoord\<close>
  returns the insufficient-points error, whose message states the points required
  and the points the player has, and the match it leaves is the match it was given:
  points, position and the occupancy of every tile are unchanged.
\<close>

theorem moveToCoord_insufficient_points:
  assumes "canMove env uid c g = Inr cost"
    and "roster_get uid (players g) = Some p"
    and "points p < movePointsRequired cost"
  shows "moveToCoord env uid c g =
           (Inl (NotEnoughPointsToMove (tilesTraversed cost) (movePointsRequired cost) (points p)), g)
         \<and> errorMessage (NotEnoughPointsToMove (tilesTraversed cost) (movePointsRequired cost) (points p)) =
           Some (''You don't have enough points required to move '' @ showInt (tilesTraversed cost) @
                 '' tiles. You need '' @ showInt (movePointsRequired cost) @
                 '' points, but have '' @ showInt (points p) @ '' points.'')"
  using assms by (simp add: moveToCoord_def)

text \<open>Player \<open>c\<close> has 3 points and the neighbouring tile costs 5.\<close>

theorem moveToCoord_insufficient_points_witness:
  "canMove exampleEnv ''c'' (Coordinate 1 2) skirmishGame =
     Inr \<lparr>movePointsRequired = 5, tilesTraversed = 1\<rparr> \<and>
   roster_get ''c'' (players skirmishGame) = Some (last (players skirmishGame)) \<and>
   points (last (players skirmishGame)) = 3 \<and>
   moveToCoord exampleEnv ''c'' (Coordinate 1 2) skirmishGame =
     (Inl (NotEnoughPointsToMove 1 5 3), skirmishGame) \<and>
   errorMessage (NotEnoughPointsToMove 1 5 3) =
     Some ''You don't have enough points required to move 1 tiles. You need 5 points, but have 3 points.''"
proof -
  have h1: "canMove exampleEnv ''c'' (Coordinate 1 2) skirmishGame =
     Inr \<lparr>movePointsRequired = 5, tilesTraversed = 1\<rparr>" by code_simp
  have h2: "roster_get ''c'' (players skirmishGame) = Some (last (players skirmishGame))" by code_simp
  have h3: "points (last (players skirmishGame)) = 3" by code_simp
  have h4: "points (last (players skirmishGame)) < movePointsRequired \<lparr>movePointsRequired = 5, tilesTraversed = 1\<rparr>"
    using h3 by simp
  have m: "errorMessage (NotEnoughPointsToMove 1 5 3) =
     Some ''You don't have enough points required to move 1 tiles. You need 5 points, but have 3 points.''"
    by code_simp
  from moveToCoord_insufficient_points [OF h1 h2 h4] have "moveToCoord exampleEnv ''c'' (Coordinate 1 2) skirmishGame =
     (Inl (NotEnoughPointsToMove 1 5 3), skirmishGame)" using h3 by simp
  with h1 h2 h3 m show ?thesis by (intro conjI)
qed

subsection \<open>The end of the match\<close>

text \<open>
  Claim C3. After every hit that \<open>doAttack\<close> resolves on a match the code reaches,
  the match is marked ended if and only if no living player remains, or exactly one
  remains, or all living players share a single team name. The roster of the
  claim's last sentence, where some living players have a team and others have
  none, is none the code reaches (\<open>join\<close> gives every player a team when the rules
  configure teams, and none otherwise): on such a roster of two or more the right
  side is false, and no hit leaves one.
\<close>

theorem doAttack_hit_ended_iff:
  assumes r: "reachable env g"
    and d: "doAttack env roll uid c g = (Inr out, g')" and h: "shotResult out = Hit"
  shows "(ended g' \<longleftrightarrow>
            length (alivePlayers g') = 0 \<or> length (alivePlayers g') = 1 \<or>
            (\<exists>n. \<forall>p\<in>set (alivePlayers g'). \<exists>t. team p = Some t \<and> name t = n)) \<and>
         \<not> ((\<exists>p\<in>set (alivePlayers g'). team p \<noteq> None) \<and> (\<exists>p\<in>set (alivePlayers g'). team p = None))"
proof -
  have "reachable env (snd (doAttack env roll uid c g))" using r by (rule reachable.attacked)
  then have "reachable env g'" using d by simp
  then have u: "teamsUniform g'" by (rule reachable_uniform)
  have sub: "set (alivePlayers g') \<subseteq> set (players g')" by (auto simp: alivePlayers_def)
  have un: "(\<forall>p\<in>set (alivePlayers g'). team p \<noteq> None) \<or> (\<forall>p\<in>set (alivePlayers g'). team p = None)"
  proof (cases "teams (rules g')")
    case None
    then have "\<forall>p\<in>set (players g'). team p = None" using u by (simp add: teamsUniform_def)
    then show ?thesis using sub by blast
  next
    case (Some ts)
    then have "\<forall>p\<in>set (players g'). team p \<noteq> None" using u by (simp add: teamsUniform_def)
    then show ?thesis using sub by blast
  qed
  from doAttack_hit_ended_general [OF d h] un
  have a: "ended g' \<longleftrightarrow>
            length (alivePlayers g') = 0 \<or> length (alivePlayers g') = 1 \<or>
            (\<exists>n. \<forall>p\<in>set (alivePlayers g'). \<exists>t. team p = Some t \<and> name t = n)" by blast
  from un have b: "\<not> ((\<exists>p\<in>set (alivePlayers g'). team p \<noteq> None) \<and> (\<exists>p\<in>set (alivePlayers g'). team p = None))"
    by auto
  from a b show ?thesis ..
qed

text \<open>
  Three joins build the match; \<open>a\<close> eliminates \<open>b\<close>; \<open>a\<close> and \<open>c\<close>, on no team, live on
  and the match goes on.
\<close>

theorem doAttack_hit_ended_iff_witness:
  "reachable exampleEnv skirmishGame \<and>
   skirmishShot = (Inr (projr (fst skirmishShot)), snd skirmishShot) \<and>
   shotResult (projr (fst skirmishShot)) = Hit \<and>
   map userId (alivePlayers (snd skirmishShot)) = [''a'', ''c''] \<and>
   map team (alivePlayers (snd skirmishShot)) = [None, None] \<and>
   \<not> ended (snd skirmishShot)"
proof -
  have s: "newGame exampleEnv exampleTiles noRules = Inr (startGame noRules)" by code_simp
  have r0: "reachable exampleEnv (startGame noRules)" using s by (rule reachable.constructed)
  have b0: "int (length (players (startGame noRules))) \<le> MAX_SAFE_INTEGER" by code_simp
  let ?g1 = "snd (join exampleEnv ''a'' None None None None (startGame noRules))"
  have r1: "reachable exampleEnv ?g1" using r0 b0 by (rule reachable.joined)
  have b1: "int (length (players ?g1)) \<le> MAX_SAFE_INTEGER" by code_simp
  let ?g2 = "snd (join exampleEnv ''b'' (Some 30) None (Some (Coordinate 2 0)) None ?g1)"
  have r2: "reachable exampleEnv ?g2" using r1 b1 by (rule reachable.joined)
  have b2: "int (length (players ?g2)) \<le> MAX_SAFE_INTEGER" by code_simp
  have "reachable exampleEnv (snd (join exampleEnv ''c'' None (Some 3) (Some (Coordinate 0 2)) None ?g2))"
    using r2 b2 by (rule reachable.joined)
  then have r: "reachable exampleEnv skirmishGame" by (simp add: skirmishGame_def)
  have h1: "doAttack exampleEnv True ''a'' (Coordinate 2 0) skirmishGame =
              (Inr (projr (fst skirmishShot)), snd skirmishShot)" by code_simp
  have h2: "shotResult (projr (fst skirmishShot)) = Hit" by code_simp
  have h3: "map userId (alivePlayers (snd skirmishShot)) = [''a'', ''c'']" by code_simp
  have h4: "map team (alivePlayers (snd skirmishShot)) = [None, None]" by code_simp
  have h5: "skirmishShot = (Inr (projr (fst skirmishShot)), snd skirmishShot)" by code_simp
  have l: "length (alivePlayers (snd skirmishShot)) = 2" using arg_cong [OF h3, of length] by simp
  have t: "\<forall>p\<in>set (alivePlayers (snd skirmishShot)). team p = None"
    using arg_cong [OF h4, of set] by auto
  have "\<not> ended (snd skirmishShot)"
    using conjunct1 [OF doAttack_hit_ended_iff [OF r h1 h2]] l t by auto
  with r h5 h2 h3 h4 show ?thesis by (intro conjI)
qed

subsection \<open>Friendly fire\<close>

text \<open>
  Claim C7, as amended. For every attack, whenever the blast covers a tile occupied
  by a living player other than the attacker whose team has the attacker's team
  name, the preview holds no damage entry for that player, the total damage is the
  sum of the entries it holds, the attack leaves that player as it was (its health
  unchanged), and the tile is left out of the affected tiles of the shot.
\<close>

theorem teammate_tile_passed_over:
  assumes r: "canAttack env uid c g = Inr result"
    and p: "roster_get uid (players g) = Some p"
    and t: "tile \<in> set (getTilesInRadius env (gameMap g) c (blastRadius p c) False)"
    and occ: "occupied tile = Some occ"
    and m: "roster_get occ (players g) = Some mate"
    and tm: "isTeammate mate p"
  shows "tile \<notin> set (affectedTiles result) \<and>
         (\<forall>e\<in>set (affectedPlayers result). userId (player e) \<noteq> userId mate) \<and>
         totalDamage result = sum_list (map damageTaken (affectedPlayers result)) \<and>
         roster_get (userId mate) (players (snd (doAttack env roll uid c g))) = Some mate"
proof -
  have res: "result = attackTiles env g p (isKamikazeShot p c)
                    (getTilesInRadius env (gameMap g) c (blastRadius p c) False)"
    using r p by (rule canAttack_result)
  have mid: "userId mate = occ" using m by (rule roster_get_userId)
  have pid: "userId p = uid" using p by (rule roster_get_userId)
  have a: "tile \<notin> set (affectedTiles result)"
    using occ m tm unfolding res attackTiles_def foldl_attackTile_tiles by auto
  have b: "\<forall>e\<in>set (affectedPlayers result). userId (player e) \<noteq> userId mate"
  proof
    fix e assume "e \<in> set (affectedPlayers result)"
    then have "roster_get (userId (player e)) (players g) = Some (player e) \<and> \<not> isTeammate (player e) p"
      unfolding res attackTiles_def using foldl_attackTile_entries by fastforce
    then show "userId (player e) \<noteq> userId mate" using m tm mid by auto
  qed
  have c: "totalDamage result = sum_list (map damageTaken (affectedPlayers result))"
    unfolding res attackTiles_def by (rule foldl_attackTile_total) simp
  have "userId mate \<noteq> uid" using tm pid by (simp add: isTeammate_def)
  then have "roster_get (userId mate) (players (snd (doAttack env roll uid c g))) =
        roster_get (userId mate) (players g)"
    using doAttack_get_other [OF r b] by simp
  then have d: "roster_get (userId mate) (players (snd (doAttack env roll uid c g))) = Some mate"
    using m mid by simp
  from a b c d show ?thesis by simp
qed

text \<open>Player \<open>a\<close> (red) fires at \<open>b\<close> on (1,0); the blast covers (2,0), where \<open>c\<close> (red) stands.\<close>

theorem teammate_tile_passed_over_witness:
  "canAttack exampleEnv ''a'' (Coordinate 1 0) teamGame = Inr teamShot \<and>
   roster_get ''a'' (players teamGame) = Some (players teamGame ! 0) \<and>
   gameMap teamGame ! 2 \<in> set (getTilesInRadius exampleEnv (gameMap teamGame) (Coordinate 1 0)
                                (blastRadius (players teamGame ! 0) (Coordinate 1 0)) False) \<and>
   occupied (gameMap teamGame ! 2) = Some ''c'' \<and>
   roster_get ''c'' (players teamGame) = Some (players teamGame ! 2) \<and>
   isTeammate (players teamGame ! 2) (players teamGame ! 0) \<and>
   gameMap teamGame ! 2 \<notin> set (affectedTiles teamShot) \<and>
   roster_get ''c'' (players (snd (doAttack exampleEnv True ''a'' (Coordinate 1 0) teamGame))) =
     Some (players teamGame ! 2)"
proof -
  have h1: "canAttack exampleEnv ''a'' (Coordinate 1 0) teamGame = Inr teamShot" by code_simp
  have h2: "roster_get ''a'' (players teamGame) = Some (players teamGame ! 0)" by code_simp
  have h3: "gameMap teamGame ! 2 \<in> set (getTilesInRadius exampleEnv (gameMap teamGame) (Coordinate 1 0)
                                (blastRadius (players teamGame ! 0) (Coordinate 1 0)) False)" by code_simp
  have h4: "occupied (gameMap teamGame ! 2) = Some ''c''" by code_simp
  have h5: "roster_get ''c'' (players teamGame) = Some (players teamGame ! 2)" by code_simp
  have h6: "isTeammate (players teamGame ! 2) (players teamGame ! 0)" by code_simp
  have u: "userId (players teamGame ! 2) = ''c''" by code_simp
  from teammate_tile_passed_over [OF h1 h2 h3 h4 h5 h6, of True]
  have "gameMap teamGame ! 2 \<notin> set (affectedTiles teamShot)"
    and "roster_get ''c'' (players (snd (doAttack exampleEnv True ''a'' (Coordinate 1 0) teamGame))) =
     Some (players teamGame ! 2)" using u by simp_all
  with h1 h2 h3 h4 h5 h6 show ?thesis by (intro conjI)
qed

text \<open>
  The claim as stated fails there: the tile of the teammate \<open>c\<close> lies in the blast and
  is not among the affected tiles.
\<close>

theorem teammate_tile_not_affected:
  "canAttack exampleEnv ''a'' (Coordinate 1 0) teamGame = Inr teamShot \<and>
   tryGetTile (gameMap teamGame) (Coordinate 2 0) = Some (gameMap teamGame ! 2) \<and>
   gameMap teamGame ! 2 \<in> set (getTilesInRadius exampleEnv (gameMap teamGame) (Coordinate 1 0) 1 False) \<and>
   occupied (gameMap teamGame ! 2) = Some ''c'' \<and>
   map_option team (roster_get ''c'' (players teamGame)) = Some (Some red) \<and>
   map_option team (roster_get ''a'' (players teamGame)) = Some (Some red) \<and>
   gameMap teamGame ! 2 \<notin> set (affectedTiles teamShot) \<and>
   map tileCoords (affectedTiles teamShot) =
     [Coordinate 0 0, Coordinate 1 0, Coordinate 0 1, Coordinate 1 1, Coordinate 2 1]"
  by code_simp

subsection \<open>Kamikaze\<close>

text \<open>
  Claim C2, as amended. For every living attacker who targets their own tile while
  holding the self-destruct perk, the blast is the tiles within radius 2 whatever
  the weapon's radius. Where the blast covers a tile that records the attacker as
  its occupant, the attacker has an entry with damage equal to the attacker's
  health before the shot and a new health of 0, is among the killed players, and
  is eliminated by the attack whatever the roll. Every entry of another player is
  of a player who is no teammate, with damage half of the global constant
  \<open>DEFAULT_STARTING_HP\<close> rounded down, capped at that player's health, whatever
  starting health the rule set configures; and every living occupant of the blast
  who is no teammate has an entry.
\<close>

theorem kamikaze_blast:
  assumes r: "canAttack env uid c g = Inr result"
    and p: "roster_get uid (players g) = Some p"
    and k: "isKamikazeShot p c"
  shows "result = attackTiles env g p True (getTilesInRadius env (gameMap g) c 2 False) \<and>
         (\<forall>e\<in>set (affectedPlayers result).
            (userId (player e) = uid \<longrightarrow> damageTaken e = hp p \<and> newHP e = 0) \<and>
            (userId (player e) \<noteq> uid \<longrightarrow>
               \<not> isTeammate (player e) p \<and>
               damageTaken e = min (hp (player e)) (DEFAULT_STARTING_HP env div 2) \<and>
               newHP e = max (hp (player e) - DEFAULT_STARTING_HP env div 2) 0)) \<and>
         (\<forall>tile\<in>set (getTilesInRadius env (gameMap g) c 2 False). \<forall>tp.
            map_option (\<lambda>occ. roster_get occ (players g)) (occupied tile) = Some (Some tp) \<and>
            \<not> isTeammate tp p \<longrightarrow>
            (\<exists>e\<in>set (affectedPlayers result). player e = tp)) \<and>
         (\<forall>tile\<in>set (getTilesInRadius env (gameMap g) c 2 False). occupied tile = Some uid \<longrightarrow>
            (\<exists>e\<in>set (affectedPlayers result).
               player e = p \<and> oldHP e = hp p \<and> damageTaken e = hp p \<and> newHP e = 0) \<and>
            p \<in> set (killedPlayers result) \<and>
            (\<forall>roll. roster_get uid (players (snd (doAttack env roll uid c g))) = None \<and>
                    roster_has uid (deadPlayers (snd (doAttack env roll uid c g)))))"
proof -
  note a = kamikaze_preview [OF r p k]
  have a1: "result = attackTiles env g p True (getTilesInRadius env (gameMap g) c 2 False)"
    using a by (rule conjunct1)
  have a2: "\<forall>e\<in>set (affectedPlayers result).
            (userId (player e) = uid \<longrightarrow> damageTaken e = hp p \<and> newHP e = 0) \<and>
            (userId (player e) \<noteq> uid \<longrightarrow>
               \<not> isTeammate (player e) p \<and>
               damageTaken e = min (hp (player e)) (DEFAULT_STARTING_HP env div 2) \<and>
               newHP e = max (hp (player e) - DEFAULT_STARTING_HP env div 2) 0)"
    using a by (rule conjunct1 [OF conjunct2])
  have a3: "\<forall>tile\<in>set (getTilesInRadius env (gameMap g) c 2 False). \<forall>tp.
            map_option (\<lambda>occ. roster_get occ (players g)) (occupied tile) = Some (Some tp) \<and>
            \<not> isTeammate tp p \<longrightarrow>
            (\<exists>e\<in>set (affectedPlayers result). player e = tp)"
    using a by (rule conjunct2 [OF conjunct2])
  have b: "\<forall>tile\<in>set (getTilesInRadius env (gameMap g) c 2 False). occupied tile = Some uid \<longrightarrow>
            (\<exists>e\<in>set (affectedPlayers result).
               player e = p \<and> oldHP e = hp p \<and> damageTaken e = hp p \<and> newHP e = 0) \<and>
            p \<in> set (killedPlayers result) \<and>
            (\<forall>roll. roster_get uid (players (snd (doAttack env roll uid c g))) = None \<and>
                    roster_has uid (deadPlayers (snd (doAttack env roll uid c g))))"
  proof (intro ballI impI)
    fix tile
    assume t: "tile \<in> set (getTilesInRadius env (gameMap g) c 2 False)" and o: "occupied tile = Some uid"
    from kamikaze_self_hit [OF r p k t o]
    show "(\<exists>e\<in>set (affectedPlayers result).
               player e = p \<and> oldHP e = hp p \<and> damageTaken e = hp p \<and> newHP e = 0) \<and>
            p \<in> set (killedPlayers result) \<and>
            (\<forall>roll. roster_get uid (players (snd (doAttack env roll uid c g))) = None \<and>
                    roster_has uid (deadPlayers (snd (doAttack env roll uid c g))))"
      by blast
  qed
  from a1 a2 a3 b show ?thesis by (intro conjI)
qed

text \<open>
  \<open>kami\<close> self-destructs on (0,0), the tile that records \<open>kami\<close>; the weapon's radius
  is 1.
\<close>

theorem kamikaze_blast_witness:
  "canAttack exampleEnv ''kami'' (Coordinate 0 0) kamikazeGame = Inr kamikazeShot \<and>
   roster_get ''kami'' (players kamikazeGame) = Some (players kamikazeGame ! 0) \<and>
   isKamikazeShot (players kamikazeGame ! 0) (Coordinate 0 0) \<and>
   gameMap kamikazeGame ! 0 \<in> set (getTilesInRadius exampleEnv (gameMap kamikazeGame) (Coordinate 0 0) 2 False) \<and>
   occupied (gameMap kamikazeGame ! 0) = Some ''kami'' \<and>
   radius (weapon (players kamikazeGame ! 0)) = 1 \<and>
   kamikazeShot = attackTiles exampleEnv kamikazeGame (players kamikazeGame ! 0) True
                    (getTilesInRadius exampleEnv (gameMap kamikazeGame) (Coordinate 0 0) 2 False) \<and>
   players kamikazeGame ! 0 \<in> set (killedPlayers kamikazeShot) \<and>
   roster_get ''kami'' (players (snd (doAttack exampleEnv False ''kami'' (Coordinate 0 0) kamikazeGame))) = None \<and>
   roster_has ''kami'' (deadPlayers (snd (doAttack exampleEnv False ''kami'' (Coordinate 0 0) kamikazeGame)))"
proof -
  have h1: "canAttack exampleEnv ''kami'' (Coordinate 0 0) kamikazeGame = Inr kamikazeShot" by code_simp
  have h2: "roster_get ''kami'' (players kamikazeGame) = Some (players kamikazeGame ! 0)" by code_simp
  have h3: "isKamikazeShot (players kamikazeGame ! 0) (Coordinate 0 0)" by code_simp
  have h4: "gameMap kamikazeGame ! 0 \<in> set (getTilesInRadius exampleEnv (gameMap kamikazeGame) (Coordinate 0 0) 2 False)"
    by code_simp
  have h5: "occupied (gameMap kamikazeGame ! 0) = Some ''kami''" by code_simp
  have h6: "radius (weapon (players kamikazeGame ! 0)) = 1" by code_simp
  note c = kamikaze_blast [OF h1 h2 h3]
  have c1: "kamikazeShot = attackTiles exampleEnv kamikazeGame (players kamikazeGame ! 0) True
                    (getTilesInRadius exampleEnv (gameMap kamikazeGame) (Coordinate 0 0) 2 False)"
    using c by (rule conjunct1)
  have c4: "players kamikazeGame ! 0 \<in> set (killedPlayers kamikazeShot) \<and>
            (\<forall>roll. roster_get ''kami'' (players (snd (doAttack exampleEnv roll ''kami'' (Coordinate 0 0) kamikazeGame))) = None \<and>
                    roster_has ''kami'' (deadPlayers (snd (doAttack exampleEnv roll ''kami'' (Coordinate 0 0) kamikazeGame))))"
    using c h4 h5 by blast
  then have c5: "players kamikazeGame ! 0 \<in> set (killedPlayers kamikazeShot)"
    and c6: "roster_get ''kami'' (players (snd (doAttack exampleEnv False ''kami'' (Coordinate 0 0) kamikazeGame))) = None"
    and c7: "roster_has ''kami'' (deadPlayers (snd (doAttack exampleEnv False ''kami'' (Coordinate 0 0) kamikazeGame)))"
    by blast+
  from h1 h2 h3 h4 h5 h6 c1 c5 c6 c7 show ?thesis by (intro conjI)
qed

text \<open>
  The claim as stated fails when the rule set overrides the starting health: with
  200 configured, half of it is 100, and the damage to \<open>b\<close> and \<open>c\<close> is 50, half of
  the global constant.
\<close>

theorem kamikaze_damage_from_global_default:
  "canAttack exampleEnv ''kami'' (Coordinate 0 0) kamikazeGame = Inr kamikazeShot \<and>
   isKamikazeShot (players kamikazeGame ! 0) (Coordinate 0 0) \<and>
   map userId (map player (affectedPlayers kamikazeShot)) = [''kami'', ''b'', ''c''] \<and>
   map oldHP (affectedPlayers kamikazeShot) = [200, 200, 200] \<and>
   map damageTaken (affectedPlayers kamikazeShot) = [200, 50, 50] \<and>
   defaultStartingHp (rules kamikazeGame) div 2 = 100 \<and>
   DEFAULT_STARTING_HP exampleEnv div 2 = 50"
  by code_simp

subsection \<open>Team assignment\<close>

text \<open>
  Claim C6, as amended. For every join with teams enabled and no usable stored team
  (the configured teams pairwise different, and fewer players than
  \<open>Number.MAX_SAFE_INTEGER\<close>), the joining player is assigned to a configured team
  with the fewest living members, and when two or more teams tie for the fewest, to
  the last such team in the configured order: every team configured after the
  assigned one has strictly more living members. With living counts 3, 1 and 2 it
  is the team with count 1.
\<close>

theorem join_team_fewest_members_last:
  assumes j: "join env uid h pts c st g = (Inr p, g')"
    and t: "teams (rules g) = Some ts" and st: "storedTeamOf ts st = None"
    and d: "distinct ts" and n: "ts \<noteq> []"
    and s: "int (length (players g)) \<le> MAX_SAFE_INTEGER"
  shows "\<exists>i<length ts. team p = Some (ts ! i) \<and>
           (\<forall>j<length ts. livingMembers (players g) (ts ! i) \<le> livingMembers (players g) (ts ! j)) \<and>
           (\<forall>j<length ts. i < j \<longrightarrow> livingMembers (players g) (ts ! i) < livingMembers (players g) (ts ! j))"
proof -
  have "joinTeam g st = chooseTeam g" using t st by (simp add: joinTeam_def)
  with join_team [OF j] have "chooseTeam g = Inr (team p)" by simp
  with chooseTeam_last_minimum [OF t d n s] show ?thesis by auto
qed

text \<open>Living counts 3, 1, 2 for red, blue, green: the player joins blue.\<close>

theorem join_team_fewest_members_last_witness:
  "nextTeamJoin = (Inr (projr (fst nextTeamJoin)), snd nextTeamJoin) \<and>
   teams (rules threeTeamGame) = Some [red, blue, green] \<and>
   storedTeamOf [red, blue, green] None = None \<and>
   distinct [red, blue, green] \<and>
   int (length (players threeTeamGame)) \<le> MAX_SAFE_INTEGER \<and>
   map (livingMembers (players threeTeamGame)) [red, blue, green] = [3, 1, 2] \<and>
   team (projr (fst nextTeamJoin)) = Some blue \<and>
   (\<exists>i<length [red, blue, green]. team (projr (fst nextTeamJoin)) = Some ([red, blue, green] ! i) \<and>
      (\<forall>j<length [red, blue, green].
         livingMembers (players threeTeamGame) ([red, blue, green] ! i)
           \<le> livingMembers (players threeTeamGame) ([red, blue, green] ! j)) \<and>
      (\<forall>j<length [red, blue, green]. i < j \<longrightarrow>
         livingMembers (players threeTeamGame) ([red, blue, green] ! i)
           < livingMembers (players threeTeamGame) ([red, blue, green] ! j)))"
proof -
  have h1: "join exampleEnv ''n'' None None None None threeTeamGame =
              (Inr (projr (fst nextTeamJoin)), snd nextTeamJoin)" by code_simp
  have h1': "nextTeamJoin = (Inr (projr (fst nextTeamJoin)), snd nextTeamJoin)" by code_simp
  have h2: "teams (rules threeTeamGame) = Some [red, blue, green]" by code_simp
  have h3: "storedTeamOf [red, blue, green] None = None" by code_simp
  have h4: "distinct [red, blue, green]" by code_simp
  have h5: "[red, blue, green] \<noteq> []" by simp
  have h6: "int (length (players threeTeamGame)) \<le> MAX_SAFE_INTEGER" by code_simp
  have h7: "map (livingMembers (players threeTeamGame)) [red, blue, green] = [3, 1, 2]" by code_simp
  have h8: "team (projr (fst nextTeamJoin)) = Some blue" by code_simp
  note c = join_team_fewest_members_last [OF h1 h2 h3 h4 h5 h6]
  from h1' h2 h3 h4 h6 h7 h8 c show ?thesis by (intro conjI)
qed

text \<open>
  The claim as stated fails at the first join of a match: red and blue tie with no
  member, and the player is assigned to blue, the last of them, not to red.
\<close>

theorem chooseTeam_tie_picks_last_team:
  "teams (rules (startGame teamRules)) = Some [red, blue] \<and>
   map (livingMembers (players (startGame teamRules))) [red, blue] = [0, 0] \<and>
   chooseTeam (startGame teamRules) = Inr (Some blue) \<and>
   team (projr (fst firstTeamJoin)) = Some blue \<and>
   red \<noteq> blue"
  by code_simp

subsection \<open>Claims the code does not meet\<close>

text \<open>
  Claim C8 says that the tick scheduler runs at the rule set's \<open>millisecondsPerTick\<close>.
  The constructor resolves that rule, and both \<open>setTimeout\<close> calls pass the global
  constant instead: with 1000 configured, the timer that the second join starts and
  the timer that a tick re-arms both wait 60000 milliseconds.
\<close>

theorem tick_interval_ignores_rule_set:
  "millisecondsPerTick (rules tickGame) = 1000 \<and>
   MILLISECONDS_PER_TICK exampleEnv = 60000 \<and>
   length (players tickGame) = 2 \<and>
   timer tickGame = Some 60000 \<and>
   timer (handleGameTick exampleEnv tickGame) = Some 60000"
  by code_simp

text \<open>
  Claim C5 says that a join supplying the coordinate of an occupied cell is given
  another, unoccupied cell. \<open>join\<close> takes the tile that \<open>tryGetTile\<close> finds without
  reading its occupancy: \<open>b\<close>, joining with the coordinate of the cell \<open>a\<close> occupies, is
  placed on that cell, while (1,0) and seven more cells are free.
\<close>

theorem join_on_occupied_cell:
  "map_option occupied (tryGetTile (gameMap oneGame) (Coordinate 0 0)) = Some (Some ''a'') \<and>
   map_option tileCoords (getUnoccupiedSquare exampleEnv (gameMap oneGame)) = Some (Coordinate 1 0) \<and>
   map_option tileCoords (joinSquare exampleEnv oneGame (Some (Coordinate 0 0))) = Some (Coordinate 0 0) \<and>
   coords (projr (fst overlapJoin)) = Coordinate 0 0"
  by code_simp

text \<open>
  Claim C1 says that no two living players share a cell and that every living
  player is the recorded occupant of the cell it stands on. After the two joins
  above, \<open>a\<close> and \<open>b\<close> are alive on (0,0), that cell records \<open>b\<close>, and no cell
  records \<open>a\<close>.
\<close>

theorem two_living_players_on_one_cell:
  "map userId (alivePlayers (snd overlapJoin)) = [''a'', ''b''] \<and>
   map coords (alivePlayers (snd overlapJoin)) = [Coordinate 0 0, Coordinate 0 0] \<and>
   map_option occupied (tryGetTile (gameMap (snd overlapJoin)) (Coordinate 0 0)) = Some (Some ''b'') \<and>
   map occupied (gameMap (snd overlapJoin)) =
     [Some ''b'', None, None, None, None, None, None, None, None]"
  by code_simp

text \<open>
  Claim C4 says that the cell of an eliminated player is cleared. \<open>killPlayer\<close> moves
  the player to the eliminated roster and takes it off the canvas, and leaves the
  tile as it was: after \<open>a\<close> eliminates \<open>b\<close> on (2,0), that cell still records \<open>b\<close>.
\<close>

theorem killed_player_keeps_cell:
  "shotResult (projr (fst skirmishShot)) = Hit \<and>
   map userId (killedPlayers (shotEffect (projr (fst skirmishShot)))) = [''b''] \<and>
   map userId (players (snd skirmishShot)) = [''a'', ''c''] \<and>
   map userId (deadPlayers (snd skirmishShot)) = [''b''] \<and>
   map hp (deadPlayers (snd skirmishShot)) = [0] \<and>
   map coords (deadPlayers (snd skirmishShot)) = [Coordinate 2 0] \<and>
   map_option occupied (tryGetTile (gameMap (snd skirmishShot)) (Coordinate 2 0)) = Some (Some ''b'')"
  by code_simp

end
